theory Spec2Isabelle
  imports Main "HOL-Library.Monad_Syntax"
begin

section \<open>Exception classes (Except.h, struct _Class; Except.c, class definitions)\<close>

text \<open>
  A \<open>ClassRef\<close> is the address of a statically allocated \<open>struct _Class\<close>.
  The class store gives the contents of every such address; it is a piece of
  mutable state because the signal handler writes the \<open>signalNumber\<close> member.
  Two references are equal exactly when they point to the same class object, as
  the pointer comparison \<open>class == base\<close> of the source.
\<close>

type_synonym ClassRef = nat

record Class =
  notRethrown :: int
  parent :: "ClassRef option"
  name :: string
  signalNumber :: int

type_synonym ClassStore = "ClassRef \<Rightarrow> Class"

definition Throwable :: ClassRef where "Throwable = 0"
definition Exception :: ClassRef where "Exception = 1"
definition OutOfMemoryError :: ClassRef where "OutOfMemoryError = 2"
definition FailedAssertion :: ClassRef where "FailedAssertion = 3"
definition RuntimeException :: ClassRef where "RuntimeException = 4"
definition AbnormalTermination :: ClassRef where "AbnormalTermination = 5"
definition ArithmeticException :: ClassRef where "ArithmeticException = 6"
definition IllegalInstruction :: ClassRef where "IllegalInstruction = 7"
definition SegmentationFault :: ClassRef where "SegmentationFault = 8"
definition BusError :: ClassRef where "BusError = 9"
definition ReturnEvent :: ClassRef where "ReturnEvent = 10"

text \<open>
  \<open>except_class_define(child, parent)\<close> expands to
  \<open>Class child = { 1, parent, #child }\<close>; the member \<open>signalNumber\<close> is
  zero-initialised.  \<open>Throwable\<close> and \<open>ReturnEvent\<close> are written out with a
  \<open>NULL\<close> parent.
\<close>

definition except_class_define :: "string \<Rightarrow> ClassRef \<Rightarrow> Class" where
  "except_class_define child par =
     \<lparr>notRethrown = 1, parent = Some par, name = child, signalNumber = 0\<rparr>"

definition root_class :: "string \<Rightarrow> Class" where
  "root_class nm = \<lparr>notRethrown = 1, parent = None, name = nm, signalNumber = 0\<rparr>"

definition declared_classes :: ClassStore where
  "declared_classes =
     (\<lambda>_. root_class [])
       (Throwable := root_class ''Throwable'',
        Exception := except_class_define ''Exception'' Throwable,
        OutOfMemoryError := except_class_define ''OutOfMemoryError'' Exception,
        FailedAssertion := except_class_define ''FailedAssertion'' Exception,
        RuntimeException := except_class_define ''RuntimeException'' Exception,
        AbnormalTermination := except_class_define ''AbnormalTermination'' RuntimeException,
        ArithmeticException := except_class_define ''ArithmeticException'' RuntimeException,
        IllegalInstruction := except_class_define ''IllegalInstruction'' RuntimeException,
        SegmentationFault := except_class_define ''SegmentationFault'' RuntimeException,
        BusError := except_class_define ''BusError'' RuntimeException,
        ReturnEvent := root_class ''ReturnEvent'')"

text \<open>
  \<open>ExceptIsDerived\<close>:
  \<^verbatim>\<open>while (class->parent != NULL && class != base) class = class->parent;
  return class == base;\<close>
  The loop follows parent links of an arbitrary store, so it is a partial
  function: \<open>None\<close> means that the walk never ends.
\<close>

partial_function (option) ExceptIsDerived ::
  "ClassStore \<Rightarrow> ClassRef \<Rightarrow> ClassRef \<Rightarrow> bool option" where
  "ExceptIsDerived cs c base =
     (case parent (cs c) of
        Some p \<Rightarrow> if c \<noteq> base then ExceptIsDerived cs p base else Some (c = base)
      | None \<Rightarrow> Some (c = base))"

text \<open>The chain of parent links that starts at a class, the class itself included.\<close>

inductive on_parent_chain :: "ClassStore \<Rightarrow> ClassRef \<Rightarrow> ClassRef \<Rightarrow> bool"
  for cs :: ClassStore where
  chain_self: "on_parent_chain cs c c"
| chain_up: "parent (cs c) = Some q \<Longrightarrow> on_parent_chain cs q p \<Longrightarrow> on_parent_chain cs c p"

text \<open>A class whose parent links lead to a root, that is, to a class with an empty parent link.\<close>

inductive rooted :: "ClassStore \<Rightarrow> ClassRef \<Rightarrow> bool"
  for cs :: ClassStore where
  rooted_root: "parent (cs c) = None \<Longrightarrow> rooted cs c"
| rooted_up: "parent (cs c) = Some q \<Longrightarrow> rooted cs q \<Longrightarrow> rooted cs c"


section \<open>Data model (Except.h)\<close>

datatype Scope = OUTSIDE | INTERNAL | TRY | CATCH | FINALLY

datatype State = EMPTY | PENDING | CAUGHT

text \<open>
  A \<open>JMP_BUF\<close> is filled by \<open>SETJMP\<close> in one of three macros: \<open>try\<close>
  (the member \<open>throwBuf\<close>), \<open>finally\<close> (the member \<open>finalBuf\<close>) and
  \<open>return\<close> (the buffer that \<open>pData\<close> then points to).  The model keeps which
  macro filled the buffer and a number for the execution of the macro that did
  it; the buffers of a handle fresh from \<open>calloc\<close> are zeroed.
\<close>

datatype JMP_BUF = Zeroed | SetByTry nat | SetByFinally nat | SetByReturn nat

text \<open>
  The \<open>void *\<close> that travels with an exception: \<open>NULL\<close>, a C string (the
  text of a failed assertion, or a string of the application), the buffer
  allocated by the \<open>return\<close> macro, or any other object of the application.
\<close>

datatype Data = NULL | String string | ReturnBuf JMP_BUF | Object nat

text \<open>
  Values of the type \<open>Handler\<close>, a pointer to a signal handling routine.  Of a
  routine of the application the model keeps its address and whether it
  returns to the code it interrupted; one that does not ends the process or
  jumps away.
\<close>

datatype Handler = SIG_DFL | SIG_IGN | ExceptThrowSignal_addr | Application_handler nat bool

text \<open>The routines whose addresses \<open>ExceptThrow\<close> stores in an exception handle.\<close>

datatype Method = ExceptGetMessage_addr | ExceptGetData_addr | ExceptPrintTryTrace_addr

text \<open>
  \<open>struct _Except\<close>.  The members \<open>class\<close> and \<open>file\<close> are called
  \<open>exn_class\<close> and \<open>exn_file\<close> (both words are keywords), and the member
  \<open>notRethrown\<close> is called \<open>ex_notRethrown\<close> (it is also a member of
  \<open>struct _Class\<close>).  Pointer members are options,
  \<open>None\<close> being the null pointer.  The check list holds the \<open>Check\<close>
  structures of \<open>ExceptCheck\<close>, head first.
\<close>

record Except =
  ex_notRethrown :: int
  state :: State
  throwBuf :: JMP_BUF
  finalBuf :: JMP_BUF
  exn_class :: "ClassRef option"
  pData :: Data
  exn_file :: "string option"
  line :: int
  ready :: int
  scope :: Scope
  first :: bool
  checkList :: "(ClassRef \<times> int) list option"
  tryFile :: "string option"
  tryLine :: int
  getClass :: "Method option"
  getMessage :: "Method option"
  getData :: "Method option"
  printTryTrace :: "Method option"

text \<open>The handle that \<open>calloc(sizeof(Except), 1)\<close> returns: every member is zero.\<close>

definition calloc_Except :: Except where
  "calloc_Except =
     \<lparr>ex_notRethrown = 0, state = EMPTY, throwBuf = Zeroed, finalBuf = Zeroed, exn_class = None,
      pData = NULL, exn_file = None, line = 0, ready = 0, scope = INTERNAL, first = False,
      checkList = None, tryFile = None, tryLine = 0, getClass = None, getMessage = None,
      getData = None, printTryTrace = None\<rparr>"

text \<open>
  \<open>struct _Context\<close>.  The LIFO buffer \<open>exStack\<close> is a list with the top of the
  stack at the head, \<open>None\<close> when the pointer is null.  The member \<open>pEx\<close> has no
  field of its own: \<open>ExceptTry\<close> and \<open>ExceptFinally\<close>, the only routines that
  push or pop, set it to the top of the stack (or to null when the stack is
  empty), so an access through \<open>pC->pEx\<close> is an access to the head of the list.
\<close>

record Context =
  exStack :: "Except list option"
  message :: string
  sigAbrtHandler :: Handler
  sigFpeHandler :: Handler
  sigIllHandler :: Handler
  sigSegvHandler :: Handler
  sigBusHandler :: Handler

definition zero_Context :: Context where
  "zero_Context =
     \<lparr>exStack = None, message = [], sigAbrtHandler = SIG_DFL, sigFpeHandler = SIG_DFL,
      sigIllHandler = SIG_DFL, sigSegvHandler = SIG_DFL, sigBusHandler = SIG_DFL\<rparr>"

text \<open>
  The build: \<open>MULTI_THREADING\<close> and \<open>SHARE_HANDLERS\<close> as Except.c derives them
  from \<open>EXCEPT_MT_SHARED\<close> and \<open>EXCEPT_MT_PRIVATE\<close>, \<open>DO_ABORT\<close> of Assert.h, the
  signal numbers of the platform (\<open>SIGBUS\<close> is optional), and the value that
  \<open>EXCEPT_THREAD_ID_FUNC()\<close> returns in the flow of control under consideration.
\<close>

record Config =
  MULTI_THREADING :: bool
  SHARE_HANDLERS :: bool
  DO_ABORT :: bool
  SIGABRT :: int
  SIGFPE :: int
  SIGILL :: int
  SIGSEGV :: int
  SIGBUS :: "int option"
  thread_id :: int

text \<open>
  The state of the module: the class objects, the static variables of Except.c,
  the signal dispositions of the process and what was written to \<open>stderr\<close>
  (one entry for each \<open>fprintf\<close>).
\<close>

record World =
  classes :: ClassStore
  defaultContext :: Context
  pContextHash :: "(int \<rightharpoonup> Context) option"
  numThreadsTry :: int
  sharedSigAbrtHandler :: Handler
  sharedSigFpeHandler :: Handler
  sharedSigIllHandler :: Handler
  sharedSigSegvHandler :: Handler
  sharedSigBusHandler :: Handler
  disposition :: "int \<Rightarrow> Handler"
  err :: "string list"

text \<open>
  How a routine ends: it returns, it leaves by \<open>LONGJMP\<close> to a recorded
  destination, a signal it raised did not come back (the default action of the
  signal, or a handler of the application that does not return), it ends the
  process (\<open>abort\<close>), it has undefined behaviour (a null, freed or mistyped
  pointer is used), or it runs forever.
\<close>

datatype 'a Outcome = Returns 'a | LongJmps JMP_BUF | Raises int | Aborts | Faults | Diverges


section \<open>Text written to stderr\<close>

definition dquote :: char where "dquote = CHR 0x22"

definition newline :: char where "newline = CHR 0x0A"

definition digit :: "nat \<Rightarrow> char" where
  "digit n = ''0123456789'' ! n"

function dec :: "nat \<Rightarrow> string" where
  "dec n = (if n < 10 then [digit n] else dec (n div 10) @ [digit (n mod 10)])"
  by pat_completeness auto
termination
  by (relation "measure id") auto

declare dec.simps [simp del]

text \<open>The conversion \<open>%d\<close> of \<open>fprintf\<close>.\<close>

definition fmt_d :: "int \<Rightarrow> string" where
  "fmt_d i = (if i < 0 then CHR ''-'' # dec (nat (- i)) else dec (nat i))"

text \<open>\<^verbatim>\<open>"%s lost: file \"%s\", line %d.\n"\<close>\<close>

definition lost_line :: "string \<Rightarrow> string \<Rightarrow> int \<Rightarrow> string" where
  "lost_line nm f l =
     nm @ '' lost: file '' @ [dquote] @ f @ [dquote] @ '', line '' @ fmt_d l @ ''.'' @ [newline]"

text \<open>\<^verbatim>\<open>"Assertion failed %s: %s, file \"%s\", line %d.\n"\<close>, the first
  argument being \<^verbatim>\<open>doAbort ? "" : "(no abort)"\<close>.\<close>

definition assertion_line :: "bool \<Rightarrow> string \<Rightarrow> string \<Rightarrow> int \<Rightarrow> string" where
  "assertion_line doAbort expr f l =
     ''Assertion failed '' @ (if doAbort then [] else ''(no abort)'') @ '': '' @ expr @
     '', file '' @ [dquote] @ f @ [dquote] @ '', line '' @ fmt_d l @ ''.'' @ [newline]"

text \<open>\<^verbatim>\<open>"Warning: No catch clause(s): file \"%s\", line %d.\n"\<close>\<close>

definition no_catch_line :: "string \<Rightarrow> int \<Rightarrow> string" where
  "no_catch_line f l =
     ''Warning: No catch clause(s): file '' @ [dquote] @ f @ [dquote] @ '', line '' @
     fmt_d l @ ''.'' @ [newline]"

text \<open>\<^verbatim>\<open>"Duplicate catch(%s): file \"%s\", line %d; already caught at line %d.\n"\<close>\<close>

definition duplicate_line :: "string \<Rightarrow> string \<Rightarrow> int \<Rightarrow> int \<Rightarrow> string" where
  "duplicate_line nm f l l0 =
     ''Duplicate catch('' @ nm @ ''): file '' @ [dquote] @ f @ [dquote] @ '', line '' @
     fmt_d l @ ''; already caught at line '' @ fmt_d l0 @ ''.'' @ [newline]"

text \<open>\<^verbatim>\<open>"Superfluous catch(%s): file \"%s\", line %d; already caught by %s at line %d.\n"\<close>\<close>

definition superfluous_line :: "string \<Rightarrow> string \<Rightarrow> int \<Rightarrow> string \<Rightarrow> int \<Rightarrow> string" where
  "superfluous_line nm f l nm0 l0 =
     ''Superfluous catch('' @ nm @ ''): file '' @ [dquote] @ f @ [dquote] @ '', line '' @
     fmt_d l @ ''; already caught by '' @ nm0 @ '' at line '' @ fmt_d l0 @ ''.'' @ [newline]"

definition fprintf_stderr :: "string \<Rightarrow> World \<Rightarrow> World" where
  "fprintf_stderr s w = w\<lparr>err := err w @ [s]\<rparr>"

section \<open>The context of the current flow of control\<close>

text \<open>
  Every non-null \<open>Context *\<close> that the macros pass around is the address of the
  context of the calling flow (the \<open>try\<close> macro gets it from
  \<open>ExceptGetContext\<close>), so the parameter \<open>pC\<close> of a routine is a flag in the
  model: \<open>False\<close> is \<open>NULL\<close>.  The context itself is read from the world: the
  static \<open>defaultContext\<close> when single-threaded, the entry of the hash table
  under the thread identifier otherwise.  The calls of
  \<open>EXCEPT_THREAD_MUTEX_FUNC\<close> come in pairs inside each routine and are left
  out; the routine \<open>ExceptPrintDebug\<close> is the empty macro (\<open>EXCEPT_DEBUG\<close> is
  not defined).
\<close>

definition HashLookup :: "(int \<rightharpoonup> 'a) \<Rightarrow> int \<Rightarrow> 'a option" where
  "HashLookup h k = h k"

definition current_context :: "Config \<Rightarrow> World \<Rightarrow> Context option" where
  "current_context cfg w =
     (if MULTI_THREADING cfg
      then (case pContextHash w of None \<Rightarrow> None | Some h \<Rightarrow> HashLookup h (thread_id cfg))
      else Some (defaultContext w))"

definition store_context :: "Config \<Rightarrow> Context \<Rightarrow> World \<Rightarrow> World" where
  "store_context cfg c w =
     (if MULTI_THREADING cfg
      then w\<lparr>pContextHash := map_option (\<lambda>h. h(thread_id cfg \<mapsto> c)) (pContextHash w)\<rparr>
      else w\<lparr>defaultContext := c\<rparr>)"

text \<open>
  \<open>ExceptGetContext\<close>: with multi-threading, a null \<open>pC\<close> is looked up in the
  hash table when there is one; single-threaded, the address of
  \<open>defaultContext\<close> is returned.  The result says whether the pointer returned
  is non-null.
\<close>

definition ExceptGetContext :: "Config \<Rightarrow> bool \<Rightarrow> World \<Rightarrow> bool" where
  "ExceptGetContext cfg pC w =
     (if MULTI_THREADING cfg
      then (case pContextHash w of
              Some h \<Rightarrow> if \<not> pC then HashLookup h (thread_id cfg) \<noteq> None else pC
            | None \<Rightarrow> pC)
      else True)"

text \<open>
  \<open>ExceptGetScope\<close>: \<open>OUTSIDE\<close> when there is no context or \<open>pC->pEx\<close> is
  null, the scope of the top of the stack otherwise.
\<close>

definition ExceptGetScope :: "Config \<Rightarrow> bool \<Rightarrow> World \<Rightarrow> Scope Outcome" where
  "ExceptGetScope cfg pC w =
     (let pC = (if \<not> pC then ExceptGetContext cfg False w else pC) in
      if \<not> pC then Returns OUTSIDE
      else (case current_context cfg w of
              None \<Rightarrow> Faults
            | Some c \<Rightarrow>
                (case exStack c of
                   Some (e # es) \<Rightarrow> Returns (scope e)
                 | _ \<Rightarrow> Returns OUTSIDE)))"


section \<open>Dispatch (Except.c)\<close>

text \<open>
  The first argument of \<open>throw\<close> is a \<open>void *\<close> that points either to a class
  or, for a rethrow, to the exception handle that a \<open>catch\<close> clause bound to its
  variable.  A handle is named by its height in the stack (1 is the bottom), which
  does not change while the handle is alive.
\<close>

datatype ExceptOrClass = NullArg | ClassArg ClassRef | ExceptArg nat

definition frame_at :: "Except list \<Rightarrow> nat \<Rightarrow> Except option" where
  "frame_at st h = (if 1 \<le> h \<and> h \<le> length st then Some (st ! (length st - h)) else None)"

text \<open>
  \<open>((ClassRef)pExceptOrClass)->notRethrown\<close>: the first member of either
  structure.
\<close>

definition arg_notRethrown :: "ClassStore \<Rightarrow> Except list \<Rightarrow> ExceptOrClass \<Rightarrow> int option" where
  "arg_notRethrown cs st a =
     (case a of
        NullArg \<Rightarrow> None
      | ClassArg k \<Rightarrow> Some (notRethrown (cs k))
      | ExceptArg h \<Rightarrow> map_option ex_notRethrown (frame_at st h))"

text \<open>
  The message of \<open>ExceptThrow\<close> outside any \<open>try\<close>.  The name is read through
  the argument as a class, and \<open>%s\<close> needs a string.
\<close>

definition throw_lost :: "ExceptOrClass \<Rightarrow> string option \<Rightarrow> int \<Rightarrow> World \<Rightarrow> unit Outcome \<times> World" where
  "throw_lost a f l w =
     (case (a, f) of
        (ClassArg k, Some fn) \<Rightarrow> (Returns (), fprintf_stderr (lost_line (name (classes w k)) fn l) w)
      | _ \<Rightarrow> (Faults, w))"

text \<open>
  \<open>ExceptThrow\<close>.  After the test for a missing context or an empty stack, the
  handle \<open>pC->pEx\<close> is filled in unless the argument is a handle, its state
  becomes \<open>PENDING\<close>, and the \<open>switch\<close> on its scope jumps; for a scope other
  than \<open>TRY\<close>, \<open>CATCH\<close> and \<open>FINALLY\<close> the routine returns.
\<close>

definition ExceptThrow ::
  "Config \<Rightarrow> bool \<Rightarrow> ExceptOrClass \<Rightarrow> Data \<Rightarrow> string option \<Rightarrow> int \<Rightarrow> World \<Rightarrow> unit Outcome \<times> World" where
  "ExceptThrow cfg pC pExceptOrClass data f l w =
     (let pC = (if \<not> pC then ExceptGetContext cfg False w else pC) in
      if \<not> pC then throw_lost pExceptOrClass f l w
      else
        (case current_context cfg w of
           None \<Rightarrow> (Faults, w)
         | Some c \<Rightarrow>
             (case exStack c of
                None \<Rightarrow> throw_lost pExceptOrClass f l w
              | Some [] \<Rightarrow> throw_lost pExceptOrClass f l w
              | Some (e # es) \<Rightarrow>
                  (case arg_notRethrown (classes w) (e # es) pExceptOrClass of
                     None \<Rightarrow> (Faults, w)
                   | Some nr \<Rightarrow>
                       (case (if nr \<noteq> 0
                              then (case pExceptOrClass of
                                      ClassArg k \<Rightarrow>
                                        Some (e\<lparr>exn_class := Some k, pData := data, exn_file := f,
                                                line := l,
                                                getMessage := Some ExceptGetMessage_addr,
                                                getData := Some ExceptGetData_addr,
                                                printTryTrace := Some ExceptPrintTryTrace_addr\<rparr>)
                                    | _ \<Rightarrow> None)
                              else Some e) of
                          None \<Rightarrow> (Faults, w)
                        | Some e1 \<Rightarrow>
                            (let e2 = e1\<lparr>state := PENDING\<rparr>;
                                 w' = store_context cfg (c\<lparr>exStack := Some (e2 # es)\<rparr>) w
                             in case scope e2 of
                                  TRY \<Rightarrow> (LongJmps (throwBuf e2), w')
                                | CATCH \<Rightarrow> (LongJmps (finalBuf e2), w')
                                | FINALLY \<Rightarrow> (LongJmps (finalBuf e2), w')
                                | _ \<Rightarrow> (Returns (), w')))))))"

text \<open>
  \<open>ExceptCatch\<close>:
  \<^verbatim>\<open>if (pC->pEx->state == PENDING && ExceptIsDerived(pC->pEx->class, class))
      pC->pEx->state = CAUGHT;
  return pC->pEx->state == CAUGHT;\<close>
  The routine uses \<open>pC\<close> and \<open>pC->pEx\<close> without a test, and
  \<open>ExceptIsDerived\<close> reads the class of the handle.
\<close>

definition ExceptCatch :: "Config \<Rightarrow> bool \<Rightarrow> ClassRef \<Rightarrow> World \<Rightarrow> bool Outcome \<times> World" where
  "ExceptCatch cfg pC cl w =
     (let pC = (if \<not> pC then ExceptGetContext cfg False w else pC) in
      if \<not> pC then (Faults, w)
      else
        (case current_context cfg w of
           None \<Rightarrow> (Faults, w)
         | Some c \<Rightarrow>
             (case exStack c of
                Some (e # es) \<Rightarrow>
                  if state e = PENDING then
                    (case exn_class e of
                       None \<Rightarrow> (Faults, w)
                     | Some k \<Rightarrow>
                         (case ExceptIsDerived (classes w) k cl of
                            None \<Rightarrow> (Diverges, w)
                          | Some d \<Rightarrow>
                              if d
                              then (Returns True,
                                    store_context cfg (c\<lparr>exStack := Some (e\<lparr>state := CAUGHT\<rparr> # es)\<rparr>) w)
                              else (Returns (state e = CAUGHT), w)))
                  else (Returns (state e = CAUGHT), w)
              | _ \<Rightarrow> (Faults, w))))"


section \<open>Signal handlers (Except.c)\<close>

text \<open>\<open>signal(number, handler)\<close> installs a handler and returns the one it replaces.\<close>

definition signal :: "int \<Rightarrow> Handler \<Rightarrow> World \<Rightarrow> Handler \<times> World" where
  "signal number h w = (disposition w number, w\<lparr>disposition := (disposition w)(number := h)\<rparr>)"

text \<open>The five calls of \<open>signal\<close> that put handlers back, in the order of the source.\<close>

definition restore_signals ::
  "Config \<Rightarrow> Handler \<Rightarrow> Handler \<Rightarrow> Handler \<Rightarrow> Handler \<Rightarrow> Handler \<Rightarrow> World \<Rightarrow> World" where
  "restore_signals cfg a f i s b w =
     (let w1 = snd (signal (SIGABRT cfg) a w);
          w2 = snd (signal (SIGFPE cfg) f w1);
          w3 = snd (signal (SIGILL cfg) i w2);
          w4 = snd (signal (SIGSEGV cfg) s w3)
      in case SIGBUS cfg of None \<Rightarrow> w4 | Some n \<Rightarrow> snd (signal n b w4))"

text \<open>
  \<open>ExceptRestoreHandlers\<close>:
  \<^verbatim>\<open>if (MULTI_THREADING && SHARE_HANDLERS && --numThreadsTry == 0) { ... restored = 1; }
  else if (!MULTI_THREADING || !SHARE_HANDLERS) { ... restored = 1; }\<close>
\<close>

definition ExceptRestoreHandlers :: "Config \<Rightarrow> Context \<Rightarrow> World \<Rightarrow> bool \<times> World" where
  "ExceptRestoreHandlers cfg c w =
     (if MULTI_THREADING cfg \<and> SHARE_HANDLERS cfg then
        (let w1 = w\<lparr>numThreadsTry := numThreadsTry w - 1\<rparr> in
         if numThreadsTry w1 = 0
         then (True, restore_signals cfg (sharedSigAbrtHandler w1) (sharedSigFpeHandler w1)
                       (sharedSigIllHandler w1) (sharedSigSegvHandler w1) (sharedSigBusHandler w1) w1)
         else (False, w1))
      else (True, restore_signals cfg (sigAbrtHandler c) (sigFpeHandler c) (sigIllHandler c)
                    (sigSegvHandler c) (sigBusHandler c) w))"

text \<open>
  \<open>ExceptThrowSignal\<close>, the handler of the five traps.  The \<open>switch\<close> has no
  default: for any other number \<open>class\<close> is used uninitialised.
\<close>

definition signal_class :: "Config \<Rightarrow> int \<Rightarrow> ClassRef option" where
  "signal_class cfg number =
     (if number = SIGABRT cfg then Some AbnormalTermination
      else if number = SIGFPE cfg then Some ArithmeticException
      else if number = SIGILL cfg then Some IllegalInstruction
      else if number = SIGSEGV cfg then Some SegmentationFault
      else if Some number = SIGBUS cfg then Some BusError
      else None)"

definition ExceptThrowSignal :: "Config \<Rightarrow> int \<Rightarrow> World \<Rightarrow> unit Outcome \<times> World" where
  "ExceptThrowSignal cfg number w =
     (let w1 = snd (signal number ExceptThrowSignal_addr w) in
      case signal_class cfg number of
        None \<Rightarrow> (Faults, w1)
      | Some k \<Rightarrow>
          (let w2 = w1\<lparr>classes := (classes w1)(k := (classes w1 k)\<lparr>signalNumber := number\<rparr>)\<rparr>
           in ExceptThrow cfg False (ClassArg k) NULL (Some ''?'') 0 w2))"

text \<open>
  \<open>raise(number)\<close> as \<open>ExceptFinally\<close> calls it.  For the number 0 no signal
  is sent and the call returns; the static class objects hold 0 until
  \<open>ExceptThrowSignal\<close> writes the number of a trap.  Otherwise the disposition
  decides: an ignored signal lets the call return, a handler runs and the
  call returns when the handler does, and the default action, which for the
  five traps ends the process, does not come back.
\<close>

definition raise :: "Config \<Rightarrow> int \<Rightarrow> World \<Rightarrow> unit Outcome \<times> World" where
  "raise cfg number w =
     (if number = 0 then (Returns (), w)
      else
        (case disposition w number of
           SIG_DFL \<Rightarrow> (Raises number, w)
         | SIG_IGN \<Rightarrow> (Returns (), w)
         | ExceptThrowSignal_addr \<Rightarrow> ExceptThrowSignal cfg number w
         | Application_handler a returning \<Rightarrow>
             if returning then (Returns (), w) else (Raises number, w)))"

section \<open>Failed assertions (Assert.c)\<close>

text \<open>
  \<open>AssertAction\<close>: inside a \<open>try\<close>, \<open>catch\<close> or \<open>finally\<close> block it throws
  \<open>FailedAssertion\<close> with the expression as data; otherwise it prints the
  expression and calls \<open>abort\<close> if \<open>doAbort\<close> is set.  The expression arrives
  as a pointer, which \<open>%s\<close> takes for a string.
\<close>

definition AssertAction ::
  "Config \<Rightarrow> bool \<Rightarrow> bool \<Rightarrow> Data \<Rightarrow> string option \<Rightarrow> int \<Rightarrow> World \<Rightarrow> unit Outcome \<times> World" where
  "AssertAction cfg pC doAbort expr f l w =
     (case ExceptGetScope cfg pC w of
        Returns sc \<Rightarrow>
          if sc = TRY \<or> sc = CATCH \<or> sc = FINALLY then
            (let pC = (if \<not> pC then ExceptGetContext cfg False w else pC)
             in ExceptThrow cfg pC (ClassArg FailedAssertion) expr f l w)
          else
            (case (expr, f) of
               (String e, Some fn) \<Rightarrow>
                 (let w' = fprintf_stderr (assertion_line doAbort e fn l) w
                  in if doAbort then (Aborts, w') else (Returns (), w'))
             | _ \<Rightarrow> (Faults, w))
      | out \<Rightarrow> (map_Outcome (\<lambda>_. ()) out, w))"

section \<open>The end of a finally block (Except.c)\<close>

text \<open>
  What the outermost level does three times over: \<open>LifoDestroy(pC->exStack)\<close>,
  and then either \<open>free(HashRemove(pContextHash, EXCEPT_THREAD_ID_FUNC()))\<close> or
  \<open>pC->exStack = NULL\<close>.
\<close>

definition destroy_context :: "Config \<Rightarrow> World \<Rightarrow> World" where
  "destroy_context cfg w =
     (if MULTI_THREADING cfg
      then w\<lparr>pContextHash := map_option (\<lambda>h. h(thread_id cfg := None)) (pContextHash w)\<rparr>
      else w\<lparr>defaultContext := (defaultContext w)\<lparr>exStack := None\<rparr>\<rparr>)"

text \<open>
  The default action of the outermost level for a handle that is still
  pending.  Nothing follows \<open>raise\<close> in its branch, so when \<open>raise\<close> returns
  control reaches the \<open>LifoDestroy(pC->exStack)\<close> after the \<open>if\<close> a second
  time: the stack is the null pointer by then, or \<open>pC\<close> points to the freed
  context, and \<open>assert\<close> is the empty macro in Lifo.c (\<open>DEBUG\<close> is not
  defined).  The same holds for the \<open>ReturnEvent\<close> branch, but \<open>LONGJMP\<close>
  does not return.
\<close>

definition default_action :: "Config \<Rightarrow> Except \<Rightarrow> bool \<Rightarrow> World \<Rightarrow> int Outcome \<times> World" where
  "default_action cfg ex restored w =
     (case exn_class ex of
        None \<Rightarrow> (Faults, w)
      | Some k \<Rightarrow>
          if k = FailedAssertion then
            (case AssertAction cfg True (DO_ABORT cfg) (pData ex) (exn_file ex) (line ex) w of
               (Returns u, w') \<Rightarrow> (Returns 0, destroy_context cfg w')
             | (out, w') \<Rightarrow> (map_Outcome (\<lambda>_. 0) out, w'))
          else
            (case ExceptIsDerived (classes w) k RuntimeException of
               None \<Rightarrow> (Diverges, w)
             | Some d \<Rightarrow>
                 if d \<and> restored then
                   (case raise cfg (signalNumber (classes w k)) (destroy_context cfg w) of
                      (Returns u, w') \<Rightarrow> (Faults, w')
                    | (out, w') \<Rightarrow> (map_Outcome (\<lambda>_. 0) out, w'))
                 else if k = ReturnEvent then
                   (case pData ex of
                      ReturnBuf b \<Rightarrow> (LongJmps b, destroy_context cfg w)
                    | _ \<Rightarrow> (Faults, destroy_context cfg w))
                 else
                   (case exn_file ex of
                      None \<Rightarrow> (Faults, w)
                    | Some fn \<Rightarrow>
                        (Returns 0,
                         destroy_context cfg
                           (fprintf_stderr (lost_line (name (classes w k)) fn (line ex)) w)))))"

text \<open>
  \<open>ExceptFinally\<close>: the stack is popped into the local copy \<open>ex\<close>.  When the
  stack has become empty the handlers are restored and a pending exception gets
  its default action; otherwise a pending exception is thrown again, unless it
  is the \<open>ReturnEvent\<close> of the first \<open>try\<close> of a routine.
\<close>

definition ExceptFinally :: "Config \<Rightarrow> bool \<Rightarrow> World \<Rightarrow> int Outcome \<times> World" where
  "ExceptFinally cfg pC w =
     (let pC = (if \<not> pC then ExceptGetContext cfg False w else pC) in
      if \<not> pC then (Faults, w)
      else
        (case current_context cfg w of
           None \<Rightarrow> (Faults, w)
         | Some c \<Rightarrow>
             (case exStack c of
                Some (ex # rest) \<Rightarrow>
                  (let c1 = c\<lparr>exStack := Some rest\<rparr>;
                       w1 = store_context cfg c1 w
                   in if rest = [] then
                        (let (restored, w2) = ExceptRestoreHandlers cfg c1 w1
                         in if state ex = PENDING then default_action cfg ex restored w2
                            else (Returns 0, destroy_context cfg w2))
                      else if state ex = PENDING then
                        (if exn_class ex = Some ReturnEvent \<and> first ex then
                           (case pData ex of
                              ReturnBuf b \<Rightarrow> (LongJmps b, w1)
                            | _ \<Rightarrow> (Faults, w1))
                         else
                           (case ExceptThrow cfg True
                                   (case exn_class ex of None \<Rightarrow> NullArg | Some k \<Rightarrow> ClassArg k)
                                   (pData ex) (exn_file ex) (line ex) w1 of
                              (out, w2) \<Rightarrow> (map_Outcome (\<lambda>_. 0) out, w2)))
                      else (Returns 0, w1))
              | _ \<Rightarrow> (Faults, w))))"


section \<open>The start of a try statement and the return macro (Except.c)\<close>

text \<open>
  \<open>ExceptCreateContext\<close>: with multi-threading a zeroed context is added to the
  hash table under the thread identifier; single-threaded it is the macro
  \<open>NULL\<close>.
\<close>

definition ExceptCreateContext :: "Config \<Rightarrow> World \<Rightarrow> bool \<times> World" where
  "ExceptCreateContext cfg w =
     (if MULTI_THREADING cfg
      then (True, w\<lparr>pContextHash :=
                       map_option (\<lambda>h. h(thread_id cfg \<mapsto> zero_Context)) (pContextHash w)\<rparr>)
      else (False, w))"

text \<open>
  \<open>ExceptInstallHandlers\<close>: when the context has no stack yet, one is created
  and \<open>ExceptThrowSignal\<close> is installed for the traps; the handlers that were
  there are saved in the static variables (shared) or in the context.
\<close>

definition ExceptInstallHandlers :: "Config \<Rightarrow> Context \<Rightarrow> World \<Rightarrow> bool \<times> Context \<times> World" where
  "ExceptInstallHandlers cfg c w =
     (if exStack c = None then
        (let c1 = c\<lparr>exStack := Some []\<rparr> in
         if MULTI_THREADING cfg \<and> SHARE_HANDLERS cfg then
           (let n = numThreadsTry w;
                w0 = w\<lparr>numThreadsTry := n + 1\<rparr>
            in if n = 0 then
                 (let (a, w1) = signal (SIGABRT cfg) ExceptThrowSignal_addr w0;
                      (f, w2) = signal (SIGFPE cfg) ExceptThrowSignal_addr w1;
                      (i, w3) = signal (SIGILL cfg) ExceptThrowSignal_addr w2;
                      (s, w4) = signal (SIGSEGV cfg) ExceptThrowSignal_addr w3;
                      w5 = w4\<lparr>sharedSigAbrtHandler := a, sharedSigFpeHandler := f,
                              sharedSigIllHandler := i, sharedSigSegvHandler := s\<rparr>
                  in case SIGBUS cfg of
                       None \<Rightarrow> (True, c1, w5)
                     | Some nb \<Rightarrow>
                         (let (b, w6) = signal nb ExceptThrowSignal_addr w5
                          in (True, c1, w6\<lparr>sharedSigBusHandler := b\<rparr>)))
               else (False, c1, w0))
         else
           (let (a, w1) = signal (SIGABRT cfg) ExceptThrowSignal_addr w;
                (f, w2) = signal (SIGFPE cfg) ExceptThrowSignal_addr w1;
                (i, w3) = signal (SIGILL cfg) ExceptThrowSignal_addr w2;
                (s, w4) = signal (SIGSEGV cfg) ExceptThrowSignal_addr w3;
                c2 = c1\<lparr>sigAbrtHandler := a, sigFpeHandler := f, sigIllHandler := i,
                        sigSegvHandler := s\<rparr>
            in case SIGBUS cfg of
                 None \<Rightarrow> (True, c2, w4)
               | Some nb \<Rightarrow>
                   (let (b, w5) = signal nb ExceptThrowSignal_addr w4
                    in (True, c2\<lparr>sigBusHandler := b\<rparr>, w5))))
      else (False, c, w))"

text \<open>
  \<open>ExceptTry\<close>: the hash table and the context are created when missing, the
  handlers are installed, and a zeroed handle is pushed with \<open>first\<close> (the
  routine was given a null \<open>pC\<close>), \<open>tryFile\<close> and \<open>tryLine\<close> filled in.
\<close>

definition ExceptTry :: "Config \<Rightarrow> bool \<Rightarrow> string \<Rightarrow> int \<Rightarrow> World \<Rightarrow> unit Outcome \<times> World" where
  "ExceptTry cfg pC f l w =
     (let w1 = (if MULTI_THREADING cfg \<and> pContextHash w = None
                then w\<lparr>pContextHash := Some Map.empty\<rparr> else w);
          frst = (\<not> pC);
          pC1 = (if frst then ExceptGetContext cfg False w1 else pC);
          (pC2, w2) = (if \<not> pC1 then ExceptCreateContext cfg w1 else (pC1, w1))
      in if \<not> pC2 then (Faults, w2)
         else
           (case current_context cfg w2 of
              None \<Rightarrow> (Faults, w2)
            | Some c \<Rightarrow>
                (let (stored, c1, w3) = ExceptInstallHandlers cfg c w2;
                     e = calloc_Except\<lparr>first := frst, tryFile := Some f, tryLine := l\<rparr>
                 in case exStack c1 of
                      None \<Rightarrow> (Faults, w3)
                    | Some st \<Rightarrow> (Returns (), store_context cfg (c1\<lparr>exStack := Some (e # st)\<rparr>) w3))))"

text \<open>
  \<open>ExceptReturn\<close>: the handle becomes a pending \<open>ReturnEvent\<close> and control
  goes to the \<open>finally\<close> code.
\<close>

definition ExceptReturn :: "Config \<Rightarrow> bool \<Rightarrow> World \<Rightarrow> unit Outcome \<times> World" where
  "ExceptReturn cfg pC w =
     (let pC = (if \<not> pC then ExceptGetContext cfg False w else pC) in
      if \<not> pC then (Faults, w)
      else
        (case current_context cfg w of
           None \<Rightarrow> (Faults, w)
         | Some c \<Rightarrow>
             (case exStack c of
                Some (e # es) \<Rightarrow>
                  (let e1 = e\<lparr>exn_class := Some ReturnEvent, state := PENDING\<rparr>
                   in (LongJmps (finalBuf e1), store_context cfg (c\<lparr>exStack := Some (e1 # es)\<rparr>) w))
              | _ \<Rightarrow> (Faults, w))))"


section \<open>Checking the catch clauses of a try statement (Except.c, DEBUG)\<close>

text \<open>
  The loop of \<open>ExceptCheck\<close> over the list, from \<open>ListHead\<close> with
  \<open>ListNext\<close>: it stops at the first entry whose class is the new class
  (duplicate) or a class the new one is derived from (superfluous) and yields
  the warning; at the end of the list it yields nothing.
\<close>

fun check_walk ::
  "ClassStore \<Rightarrow> ClassRef \<Rightarrow> string \<Rightarrow> int \<Rightarrow> (ClassRef \<times> int) list \<Rightarrow> string option Outcome" where
  "check_walk cs cl f l [] = Returns None"
| "check_walk cs cl f l ((k, l0) # rest) =
     (if cl = k then Returns (Some (duplicate_line (name (cs cl)) f l l0))
      else (case ExceptIsDerived cs cl k of
              None \<Rightarrow> Diverges
            | Some d \<Rightarrow>
                if d then Returns (Some (superfluous_line (name (cs cl)) f l (name (cs k)) l0))
                else check_walk cs cl f l rest))"

text \<open>
  \<open>ExceptCheck\<close>.  The flag \<open>*pChecked\<close> is the argument \<open>checked\<close>; the
  routine returns it unchanged.  The macro passes its own non-null \<open>pC\<close>, and the
  routine does not look a context up.
\<close>

definition ExceptCheck ::
  "Config \<Rightarrow> bool \<Rightarrow> bool \<Rightarrow> ClassRef \<Rightarrow> string \<Rightarrow> int \<Rightarrow> World \<Rightarrow> bool Outcome \<times> World" where
  "ExceptCheck cfg pC checked cl f l w =
     (if \<not> checked then
        (if \<not> pC then (Faults, w)
         else
           (case current_context cfg w of
              None \<Rightarrow> (Faults, w)
            | Some c \<Rightarrow>
                (case exStack c of
                   Some (e # es) \<Rightarrow>
                     (case checkList e of
                        None \<Rightarrow> (Faults, w)
                      | Some cks \<Rightarrow>
                          (case check_walk (classes w) cl f l cks of
                             Returns None \<Rightarrow>
                               (Returns checked,
                                store_context cfg
                                  (c\<lparr>exStack := Some (e\<lparr>checkList := Some (cks @ [(cl, l)])\<rparr> # es)\<rparr>) w)
                           | Returns (Some msg) \<Rightarrow> (Returns checked, fprintf_stderr msg w)
                           | out \<Rightarrow> (map_Outcome (\<lambda>_. checked) out, w)))
                 | _ \<Rightarrow> (Faults, w))))
      else (Returns checked, w))"

text \<open>
  \<open>ExceptCheckBegin\<close>: the first call creates the list; the second one warns
  if the list is empty, destroys it and sets \<open>*pChecked\<close>.  The value returned
  is the new value of \<open>*pChecked\<close>.
\<close>

definition ExceptCheckBegin ::
  "Config \<Rightarrow> bool \<Rightarrow> bool \<Rightarrow> string \<Rightarrow> int \<Rightarrow> World \<Rightarrow> bool Outcome \<times> World" where
  "ExceptCheckBegin cfg pC checked f l w =
     (if \<not> pC then (Faults, w)
      else
        (case current_context cfg w of
           None \<Rightarrow> (Faults, w)
         | Some c \<Rightarrow>
             (case exStack c of
                Some (e # es) \<Rightarrow>
                  if checkList e = None \<and> \<not> checked then
                    (Returns checked,
                     store_context cfg (c\<lparr>exStack := Some (e\<lparr>checkList := Some []\<rparr> # es)\<rparr>) w)
                  else if \<not> checked then
                    (case checkList e of
                       None \<Rightarrow> (Faults, w)
                     | Some cks \<Rightarrow>
                         (let w1 = (if length cks = 0
                                    then fprintf_stderr (no_catch_line f l) w else w)
                          in (Returns True,
                              store_context cfg
                                (c\<lparr>exStack := Some (e\<lparr>checkList := None\<rparr> # es)\<rparr>) w1)))
                  else (Returns checked, w)
              | _ \<Rightarrow> (Faults, w))))"

text \<open>
  The checking pass of the \<open>try\<close> macro when \<open>DEBUG\<close> is defined and the
  statement has not been checked yet: \<open>CHECK_BEGIN\<close> returns 0, so every
  \<open>catch\<close> macro evaluates its \<open>CHECK\<close> (each with its own line);
  \<open>CHECK_END\<close> then continues the loop and \<open>CHECK_BEGIN\<close> is called again.
\<close>

fun check_clauses ::
  "Config \<Rightarrow> string \<Rightarrow> (ClassRef \<times> int) list \<Rightarrow> World \<Rightarrow> bool Outcome \<times> World" where
  "check_clauses cfg f [] w = (Returns False, w)"
| "check_clauses cfg f ((cl, l) # rest) w =
     (case ExceptCheck cfg True False cl f l w of
        (Returns r, w') \<Rightarrow> check_clauses cfg f rest w'
      | (out, w') \<Rightarrow> (out, w'))"

definition check_pass ::
  "Config \<Rightarrow> string \<Rightarrow> int \<Rightarrow> (ClassRef \<times> int) list \<Rightarrow> World \<Rightarrow> bool Outcome \<times> World" where
  "check_pass cfg f l clauses w =
     (case ExceptCheckBegin cfg True False f l w of
        (Returns r, w1) \<Rightarrow>
          (case check_clauses cfg f clauses w1 of
             (Returns r', w2) \<Rightarrow> ExceptCheckBegin cfg True False f l w2
           | (out, w2) \<Rightarrow> (out, w2))
      | (out, w1) \<Rightarrow> (out, w1))"


section \<open>The macros (Except.h) and the course of a try statement\<close>

text \<open>
  The handle on top of the stack of the current flow, and a change to it: the
  macros read and write members through \<open>pC->pEx\<close> or
  \<open>ExceptGetContext(pC)->pEx\<close>.
\<close>

definition top_frame :: "Config \<Rightarrow> World \<Rightarrow> Except option" where
  "top_frame cfg w =
     (case current_context cfg w of
        None \<Rightarrow> None
      | Some c \<Rightarrow> (case exStack c of Some (e # es) \<Rightarrow> Some e | _ \<Rightarrow> None))"

definition frames :: "Config \<Rightarrow> World \<Rightarrow> Except list" where
  "frames cfg w =
     (case current_context cfg w of
        None \<Rightarrow> []
      | Some c \<Rightarrow> (case exStack c of Some st \<Rightarrow> st | None \<Rightarrow> []))"

definition update_top :: "Config \<Rightarrow> (Except \<Rightarrow> Except) \<Rightarrow> World \<Rightarrow> World option" where
  "update_top cfg g w =
     (case current_context cfg w of
        None \<Rightarrow> None
      | Some c \<Rightarrow>
          (case exStack c of
             Some (e # es) \<Rightarrow> Some (store_context cfg (c\<lparr>exStack := Some (g e # es)\<rparr>) w)
           | _ \<Rightarrow> None))"

text \<open>
  The \<open>try\<close> macro up to the start of the user's block, without the checking
  pass: \<open>ExceptTry\<close>; a pass in which \<open>ready\<close> is zero, so only
  \<open>SETJMP(pC->pEx->finalBuf)\<close> is reached and \<open>ready\<close> becomes 1; and the pass
  in which \<open>SETJMP(pC->pEx->throwBuf)\<close> returns zero and the scope becomes
  \<open>TRY\<close>.  The number \<open>n\<close> names this execution of the macro.
\<close>

definition try_macro :: "Config \<Rightarrow> bool \<Rightarrow> string \<Rightarrow> int \<Rightarrow> nat \<Rightarrow> World \<Rightarrow> unit Outcome \<times> World" where
  "try_macro cfg pC f l n w =
     (case ExceptTry cfg pC f l w of
        (Returns u, w1) \<Rightarrow>
          (case update_top cfg
                  (\<lambda>e. e\<lparr>finalBuf := SetByFinally n, ready := 1, throwBuf := SetByTry n,
                          scope := TRY\<rparr>) w1 of
             None \<Rightarrow> (Faults, w1)
           | Some w2 \<Rightarrow> (Returns (), w2))
      | (out, w1) \<Rightarrow> (out, w1))"

text \<open>
  One \<open>catch\<close> macro after a jump to \<open>throwBuf\<close> (\<open>CHECK\<close> and \<open>ready\<close>
  are non-zero): \<open>ExceptCatch\<close> is called, and when it returns 1 the scope
  becomes \<open>CATCH\<close> and the user's block runs.
\<close>

definition catch_macro :: "Config \<Rightarrow> ClassRef \<Rightarrow> World \<Rightarrow> bool Outcome \<times> World" where
  "catch_macro cfg cl w =
     (case ExceptCatch cfg True cl w of
        (Returns True, w1) \<Rightarrow>
          (case update_top cfg (\<lambda>e. e\<lparr>scope := CATCH\<rparr>) w1 of
             None \<Rightarrow> (Faults, w1)
           | Some w2 \<Rightarrow> (Returns True, w2))
      | (out, w1) \<Rightarrow> (out, w1))"

text \<open>
  The \<open>finally\<close> macro after the loop of the \<open>try\<close> macro has been left:
  the scope becomes \<open>FINALLY\<close>; when \<open>ready\<close> is positive it is decremented
  and the user's block runs (result \<open>True\<close>), otherwise \<open>ExceptFinally\<close> is
  due (result \<open>False\<close>).
\<close>

definition finally_macro :: "Config \<Rightarrow> bool \<Rightarrow> World \<Rightarrow> bool Outcome \<times> World" where
  "finally_macro cfg pC w =
     (if \<not> ExceptGetContext cfg pC w then (Faults, w)
      else
        (case update_top cfg (\<lambda>e. e\<lparr>scope := FINALLY\<rparr>) w of
           None \<Rightarrow> (Faults, w)
         | Some w1 \<Rightarrow>
             (case top_frame cfg w1 of
                None \<Rightarrow> (Faults, w1)
              | Some e \<Rightarrow>
                  if ready e > 0
                  then (case update_top cfg (\<lambda>e. e\<lparr>ready := ready e - 1\<rparr>) w1 of
                          None \<Rightarrow> (Faults, w1)
                        | Some w2 \<Rightarrow> (Returns True, w2))
                  else (Returns False, w1))))"

text \<open>
  The end of the user's \<open>finally\<close> block: the inner \<open>while\<close> tests and
  decrements \<open>ready\<close> once more, then \<open>ExceptFinally\<close> is due.
\<close>

definition finally_block_end :: "Config \<Rightarrow> bool \<Rightarrow> World \<Rightarrow> unit Outcome \<times> World" where
  "finally_block_end cfg pC w =
     (if \<not> ExceptGetContext cfg pC w then (Faults, w)
      else
        (case update_top cfg (\<lambda>e. e\<lparr>ready := ready e - 1\<rparr>) w of
           None \<Rightarrow> (Faults, w)
         | Some w1 \<Rightarrow> (Returns (), w1)))"

text \<open>
  The \<open>return\<close> macro: outside any \<open>try\<close> it is the plain \<open>return\<close>;
  otherwise a buffer is allocated, stored in \<open>pData\<close> and filled by
  \<open>SETJMP\<close>, and \<open>ExceptReturn\<close> is called.
\<close>

definition return_macro :: "Config \<Rightarrow> bool \<Rightarrow> nat \<Rightarrow> World \<Rightarrow> unit Outcome \<times> World" where
  "return_macro cfg pC n w =
     (case ExceptGetScope cfg pC w of
        Returns sc \<Rightarrow>
          if sc \<noteq> OUTSIDE then
            (if \<not> ExceptGetContext cfg pC w then (Faults, w)
             else
               (case update_top cfg (\<lambda>e. e\<lparr>pData := ReturnBuf (SetByReturn n)\<rparr>) w of
                  None \<Rightarrow> (Faults, w)
                | Some w1 \<Rightarrow> ExceptReturn cfg pC w1))
          else (Returns (), w)
      | out \<Rightarrow> (map_Outcome (\<lambda>_. ()) out, w))"


section \<open>The frame state machine\<close>

text \<open>
  Where the flow of control is with respect to the handle on top of the stack:
  in code of the user (the block named by the scope of the handle, or code
  outside any \<open>try\<close> when the stack is empty), in the chain of \<open>catch\<close>
  macros after a jump to \<open>throwBuf\<close>, at the \<open>break\<close> that leaves the loop
  of the \<open>try\<close> macro, before the call of \<open>ExceptFinally\<close>, or nowhere any
  more: the process was ended, a raised signal did not come back, a routine
  does not return, or the behaviour is undefined.
\<close>

datatype Control = Running | Catching | AtFinally | Resolving | Stopped

record Machine =
  control :: Control
  world :: World

text \<open>
  What the user's code and the macros can do next.  The flag \<open>pC\<close> says
  whether the variable \<open>pC\<close> in scope at that place of the program is the
  local one of an enclosing \<open>try\<close> macro or the global null pointer.  The
  class \<open>ReturnEvent\<close> is static in Except.c, so no \<open>throw\<close> and no
  \<open>catch\<close> of the user names it.
\<close>

datatype Event =
    EvTry bool string int nat
  | EvThrow bool ExceptOrClass Data string int
  | EvSignal int
  | EvAssert bool string string int
  | EvReturn bool nat
  | EvBlockEnd bool
  | EvCatch ClassRef
  | EvNoCatch
  | EvFinally bool
  | EvResolve bool

text \<open>
  Where control is after a routine has ended.  A jump lands in the macro that
  filled the buffer: the \<open>catch\<close> chain for \<open>throwBuf\<close>, the \<open>break\<close> for
  \<open>finalBuf\<close>, and the \<open>return\<close> statement of the user for the buffer of the
  \<open>return\<close> macro.
\<close>

definition continue :: "Control \<Rightarrow> 'a Outcome \<Rightarrow> Control" where
  "continue dflt out =
     (case out of
        Returns v \<Rightarrow> dflt
      | LongJmps (SetByTry n) \<Rightarrow> Catching
      | LongJmps (SetByFinally n) \<Rightarrow> AtFinally
      | LongJmps (SetByReturn n) \<Rightarrow> Running
      | _ \<Rightarrow> Stopped)"

definition after :: "Control \<Rightarrow> 'a Outcome \<times> World \<Rightarrow> Machine option" where
  "after dflt r = Some \<lparr>control = continue dflt (fst r), world = snd r\<rparr>"

definition step :: "Config \<Rightarrow> Event \<Rightarrow> Machine \<Rightarrow> Machine option" where
  "step cfg ev m =
     (let w = world m in
      case (control m, ev) of
        (Running, EvTry pC f l n) \<Rightarrow> after Running (try_macro cfg pC f l n w)
      | (Running, EvThrow pC a d f l) \<Rightarrow>
          if a = ClassArg ReturnEvent then None
          else after Running (ExceptThrow cfg pC a d (Some f) l w)
      | (Running, EvSignal number) \<Rightarrow> after Running (ExceptThrowSignal cfg number w)
      | (Running, EvAssert pC e f l) \<Rightarrow>
          after Running (AssertAction cfg pC (DO_ABORT cfg) (String e) (Some f) l w)
      | (Running, EvReturn pC n) \<Rightarrow> after Running (return_macro cfg pC n w)
      | (Running, EvBlockEnd pC) \<Rightarrow>
          (case top_frame cfg w of
             None \<Rightarrow> None
           | Some e \<Rightarrow>
               if scope e = FINALLY then after Resolving (finally_block_end cfg pC w)
               else Some \<lparr>control = AtFinally, world = w\<rparr>)
      | (Catching, EvCatch cl) \<Rightarrow>
          if cl = ReturnEvent then None
          else
            (case catch_macro cfg cl w of
               (Returns caught, w') \<Rightarrow>
                 Some \<lparr>control = (if caught then Running else Catching), world = w'\<rparr>
             | (out, w') \<Rightarrow> after Stopped (out, w'))
      | (Catching, EvNoCatch) \<Rightarrow> Some \<lparr>control = AtFinally, world = w\<rparr>
      | (AtFinally, EvFinally pC) \<Rightarrow>
          (case finally_macro cfg pC w of
             (Returns block, w') \<Rightarrow>
               Some \<lparr>control = (if block then Running else Resolving), world = w'\<rparr>
           | (out, w') \<Rightarrow> after Stopped (out, w'))
      | (Resolving, EvResolve pC) \<Rightarrow> after Running (ExceptFinally cfg pC w)
      | _ \<Rightarrow> None)"

text \<open>
  The states the machine can reach from a world in which the current flow has
  no handle, control being in code of the user.
\<close>

inductive reachable :: "Config \<Rightarrow> Machine \<Rightarrow> bool" for cfg :: Config where
  reachable_init: "frames cfg w = [] \<Longrightarrow> reachable cfg \<lparr>control = Running, world = w\<rparr>"
| reachable_step: "reachable cfg m \<Longrightarrow> step cfg ev m = Some m' \<Longrightarrow> reachable cfg m'"

fun run :: "Config \<Rightarrow> Event list \<Rightarrow> Machine \<Rightarrow> Machine option" where
  "run cfg [] m = Some m"
| "run cfg (ev # evs) m = (case step cfg ev m of None \<Rightarrow> None | Some m' \<Rightarrow> run cfg evs m')"

section \<open>Examples\<close>

text \<open>A single-threaded build with the signal numbers of Linux, and its initial world.\<close>

definition single_threaded :: Config where
  "single_threaded =
     \<lparr>MULTI_THREADING = False, SHARE_HANDLERS = False, DO_ABORT = False, SIGABRT = 6,
      SIGFPE = 8, SIGILL = 4, SIGSEGV = 11, SIGBUS = Some 7, thread_id = 0\<rparr>"

definition initial_world :: World where
  "initial_world =
     \<lparr>classes = declared_classes, defaultContext = zero_Context, pContextHash = None,
      numThreadsTry = 0, sharedSigAbrtHandler = SIG_DFL, sharedSigFpeHandler = SIG_DFL,
      sharedSigIllHandler = SIG_DFL, sharedSigSegvHandler = SIG_DFL,
      sharedSigBusHandler = SIG_DFL, disposition = (\<lambda>_. SIG_DFL), err = []\<rparr>"


text \<open>
  A handle as the macros leave it while a \<open>try\<close> statement is under way, and
  a single-threaded world whose stack holds the given handles.
\<close>

definition handle :: "Scope \<Rightarrow> State \<Rightarrow> ClassRef option \<Rightarrow> Data \<Rightarrow> string option \<Rightarrow> int \<Rightarrow> nat \<Rightarrow> Except" where
  "handle sc st k d f l n =
     calloc_Except\<lparr>state := st, throwBuf := SetByTry n, finalBuf := SetByFinally n,
                   exn_class := k, pData := d, exn_file := f, line := l, ready := 1,
                   scope := sc, tryFile := Some ''Test.c'', tryLine := 1\<rparr>"

definition world_with :: "Except list \<Rightarrow> World" where
  "world_with st = initial_world\<lparr>defaultContext := zero_Context\<lparr>exStack := Some st\<rparr>\<rparr>"


text \<open>
  The handles of the rethrow test of Test.c when the inner \<open>catch\<close> block
  runs, and a build with \<open>ASSERT_ABORT\<close> defined.
\<close>

definition caught_handle :: Except where
  "caught_handle = handle CATCH CAUGHT (Some Exception) (String ''Hello'') (Some ''Test.c'') 500 2"

definition outer_handle :: Except where
  "outer_handle = handle TRY EMPTY None NULL None 0 1"







section \<open>Notions used in the statements\<close>

text \<open>The current context with another stack.\<close>

definition with_frames :: "Config \<Rightarrow> Context \<Rightarrow> Except list \<Rightarrow> World \<Rightarrow> World" where
  "with_frames cfg c st w = store_context cfg (c\<lparr>exStack := Some st\<rparr>) w"

text \<open>
  A handle after an exception of class \<open>k\<close> with data \<open>d\<close>, file \<open>f\<close> and
  line \<open>l\<close> has been thrown into it.
\<close>

definition thrown_into :: "Except \<Rightarrow> ClassRef \<Rightarrow> Data \<Rightarrow> string option \<Rightarrow> int \<Rightarrow> Except" where
  "thrown_into e k d f l =
     e\<lparr>exn_class := Some k, pData := d, exn_file := f, line := l,
       getMessage := Some ExceptGetMessage_addr, getData := Some ExceptGetData_addr,
       printTryTrace := Some ExceptPrintTryTrace_addr, state := PENDING\<rparr>"

text \<open>
  The context of the current flow is gone: its entry has left the hash table,
  or, single-threaded, the stack of \<open>defaultContext\<close> is the null pointer.
\<close>

definition context_destroyed :: "Config \<Rightarrow> World \<Rightarrow> bool" where
  "context_destroyed cfg w =
     (if MULTI_THREADING cfg then current_context cfg w = None
      else exStack (defaultContext w) = None)"

text \<open>
  The rule of the checker for one new \<open>catch\<close> clause, given the clauses
  recorded so far: a recorded clause with the same class makes it a
  duplicate; failing that, a recorded clause with a class it is derived from
  makes it superfluous; failing that, there is no warning.
\<close>

fun spec_check ::
  "ClassStore \<Rightarrow> string \<Rightarrow> (ClassRef \<times> int) list \<Rightarrow> ClassRef \<times> int \<Rightarrow> string option" where
  "spec_check cs f recorded (cl, l) =
     (case find (\<lambda>(k, l0). k = cl) recorded of
        Some (k, l0) \<Rightarrow> Some (duplicate_line (name (cs cl)) f l l0)
      | None \<Rightarrow>
          (case find (\<lambda>(k, l0). on_parent_chain cs cl k) recorded of
             Some (k, l0) \<Rightarrow> Some (superfluous_line (name (cs cl)) f l (name (cs k)) l0)
           | None \<Rightarrow> None))"

text \<open>
  The checker over the clauses of a \<open>try\<close> statement in their order: a
  clause that draws a warning is not recorded, any other clause is appended
  to the record.  The result is the final record and the warnings.
\<close>

fun spec_audit ::
  "ClassStore \<Rightarrow> string \<Rightarrow> (ClassRef \<times> int) list \<Rightarrow> (ClassRef \<times> int) list \<Rightarrow>
   (ClassRef \<times> int) list \<times> string list" where
  "spec_audit cs f recorded [] = (recorded, [])"
| "spec_audit cs f recorded (x # xs) =
     (case spec_check cs f recorded x of
        Some msg \<Rightarrow> (case spec_audit cs f recorded xs of (r, msgs) \<Rightarrow> (r, msg # msgs))
      | None \<Rightarrow> spec_audit cs f (recorded @ [x]) xs)"

text \<open>No recorded clause has a class derived from the class of a clause recorded before it.\<close>

fun unshadowed :: "ClassStore \<Rightarrow> (ClassRef \<times> int) list \<Rightarrow> bool" where
  "unshadowed cs [] = True"
| "unshadowed cs (x # xs) =
     ((\<forall>y \<in> set xs. \<not> on_parent_chain cs (fst y) (fst x)) \<and> unshadowed cs xs)"

text \<open>The handle that \<open>ExceptTry\<close> pushes for a \<open>try\<close> at line 9 of Test.c.\<close>

definition fresh_handle :: Except where
  "fresh_handle = calloc_Except\<lparr>first := True, tryFile := Some ''Test.c'', tryLine := 9\<rparr>"

text \<open>
  The states of the handles of the current flow, the bottom of the stack
  first, so that the position of a handle is its height.
\<close>

definition states_of :: "Config \<Rightarrow> Machine \<Rightarrow> State list" where
  "states_of cfg m = map state (rev (frames cfg (world m)))"

definition scopes_and_states :: "Config \<Rightarrow> Machine \<Rightarrow> (Scope \<times> State) list" where
  "scopes_and_states cfg m = map (\<lambda>e. (scope e, state e)) (frames cfg (world m))"

text \<open>
  The event is a \<open>catch\<close> clause that matches: control is in the chain of
  \<open>catch\<close> macros, and the class of the exception in the top handle is
  derived from the class of the clause.
\<close>

definition matching_catch :: "Config \<Rightarrow> Event \<Rightarrow> Machine \<Rightarrow> bool" where
  "matching_catch cfg ev m =
     (case ev of
        EvCatch cl \<Rightarrow>
          control m = Catching \<and>
          (case top_frame cfg (world m) of
             Some e \<Rightarrow>
               (case exn_class e of
                  Some k \<Rightarrow> ExceptIsDerived (classes (world m)) k cl = Some True
                | None \<Rightarrow> False)
           | None \<Rightarrow> False)
      | _ \<Rightarrow> False)"

text \<open>
  What holds of every handle of a running machine: its two buffers were filled
  by the \<open>try\<close> macro, and if its class is \<open>ReturnEvent\<close> its data is a
  buffer of the \<open>return\<close> macro.
\<close>

definition sound :: "Except \<Rightarrow> bool" where
  "sound e =
     ((case throwBuf e of SetByTry n \<Rightarrow> True | _ \<Rightarrow> False) \<and>
      (case finalBuf e of SetByFinally n \<Rightarrow> True | _ \<Rightarrow> False) \<and>
      (exn_class e = Some ReturnEvent \<longrightarrow>
         (case pData e of ReturnBuf (SetByReturn n) \<Rightarrow> True | _ \<Rightarrow> False)))"

text \<open>A handle while code of the user runs in one of the blocks of its statement.\<close>

definition in_block :: "Except \<Rightarrow> bool" where
  "in_block e =
     (sound e \<and>
      ((scope e = TRY \<and> state e = EMPTY) \<or> (scope e = CATCH \<and> state e = CAUGHT) \<or>
       scope e = FINALLY))"

text \<open>The invariant of the machine, by the place of control.\<close>

definition invariant :: "Config \<Rightarrow> Machine \<Rightarrow> bool" where
  "invariant cfg m =
     (let fs = frames cfg (world m) in
      case control m of
        Running \<Rightarrow> list_all in_block fs
      | Catching \<Rightarrow>
          (case fs of
             e # es \<Rightarrow> sound e \<and> scope e = TRY \<and> state e = PENDING \<and> list_all in_block es
           | [] \<Rightarrow> False)
      | AtFinally \<Rightarrow>
          (case fs of
             e # es \<Rightarrow>
               sound e \<and>
               ((scope e = TRY \<and> state e \<noteq> CAUGHT) \<or> scope e = CATCH \<or> scope e = FINALLY) \<and>
               list_all in_block es
           | [] \<Rightarrow> False)
      | Resolving \<Rightarrow>
          (case fs of
             e # es \<Rightarrow> sound e \<and> scope e = FINALLY \<and> list_all in_block es
           | [] \<Rightarrow> False)
      | Stopped \<Rightarrow> True)"

section \<open>Steps of the machine\<close>

text \<open>
  Where \<open>ExceptThrow\<close> goes once the exception is in the handle: to
  \<open>throwBuf\<close> from a \<open>try\<close> block, to \<open>finalBuf\<close> from a \<open>catch\<close> or a
  \<open>finally\<close> block, and back to its caller from any other scope.
\<close>

definition throw_jump :: "Except \<Rightarrow> unit Outcome" where
  "throw_jump e =
     (case scope e of
        TRY \<Rightarrow> LongJmps (throwBuf e)
      | CATCH \<Rightarrow> LongJmps (finalBuf e)
      | FINALLY \<Rightarrow> LongJmps (finalBuf e)
      | _ \<Rightarrow> Returns ())"

text \<open>
  The handle \<open>e'\<close> is the handle \<open>e\<close> after a throw of \<open>a\<close> with data
  \<open>d\<close>: it is \<open>PENDING\<close>, scope and buffers are kept, and class and data
  are the old ones (a rethrow) or those of the throw.
\<close>

definition thrown :: "Except \<Rightarrow> Except \<Rightarrow> ExceptOrClass \<Rightarrow> Data \<Rightarrow> bool" where
  "thrown e e' a d =
     (state e' = PENDING \<and> scope e' = scope e \<and> throwBuf e' = throwBuf e \<and>
      finalBuf e' = finalBuf e \<and>
      ((exn_class e' = exn_class e \<and> pData e' = pData e) \<or>
       (\<exists>k. a = ClassArg k \<and> exn_class e' = Some k \<and> pData e' = d)))"

text \<open>
  Between two stacks, by height: no handle has become \<open>CAUGHT\<close>, and a
  \<open>PENDING\<close> handle that is still there is still \<open>PENDING\<close>.
\<close>

definition quiet :: "Except list \<Rightarrow> Except list \<Rightarrow> bool" where
  "quiet fs fs' =
     ((\<forall>i < length fs'. state (rev fs' ! i) = CAUGHT \<longrightarrow>
          i < length fs \<and> state (rev fs ! i) = CAUGHT) \<and>
      (\<forall>i. i < length fs \<and> i < length fs' \<and> state (rev fs ! i) = PENDING \<longrightarrow>
          state (rev fs' ! i) = PENDING))"

text \<open>
  What one step of the machine keeps: the invariant, and either the step is a
  matching \<open>catch\<close> clause, which makes the top handle \<open>CAUGHT\<close> and enters
  the block, or the step is quiet.
\<close>

definition good :: "Config \<Rightarrow> Event \<Rightarrow> Machine \<Rightarrow> Machine \<Rightarrow> bool" where
  "good cfg ev m m' =
     (invariant cfg m' \<and>
      (if matching_catch cfg ev m
       then (\<exists>e es. frames cfg (world m) = e # es \<and>
                    frames cfg (world m') = e\<lparr>state := CAUGHT, scope := CATCH\<rparr> # es \<and>
                    state e = PENDING \<and> control m' = Running)
       else quiet (frames cfg (world m)) (frames cfg (world m'))))"

text \<open>
  A \<open>try\<close> statement at line 40 of Test.c whose block throws \<open>Exception\<close>
  at line 42, and the machine after the throw.
\<close>

definition try_and_throw :: "Event list" where
  "try_and_throw =
     [EvTry False ''Test.c'' 40 1, EvThrow True (ClassArg Exception) NULL ''Test.c'' 42]"

definition pending_machine :: Machine where
  "pending_machine =
     the (run single_threaded try_and_throw \<lparr>control = Running, world = initial_world\<rparr>)"

section \<open>Walking the class tree\<close>

declare ExceptIsDerived.simps [code]

lemmas class_refs =
  Throwable_def Exception_def OutOfMemoryError_def FailedAssertion_def
  RuntimeException_def AbnormalTermination_def ArithmeticException_def
  IllegalInstruction_def SegmentationFault_def BusError_def ReturnEvent_def

lemma chain_root_iff: "parent (cs c) = None \<Longrightarrow> on_parent_chain cs c p \<longleftrightarrow> c = p"
  by (auto elim: on_parent_chain.cases intro: chain_self)

lemma chain_step_iff:
  "parent (cs c) = Some q \<Longrightarrow> c \<noteq> p \<Longrightarrow> on_parent_chain cs c p \<longleftrightarrow> on_parent_chain cs q p"
  by (auto elim: on_parent_chain.cases intro: chain_up)

lemma ExceptIsDerived_refl: "ExceptIsDerived cs c c = Some True"
  by (subst ExceptIsDerived.simps) (simp split: option.split)

lemma ExceptIsDerived_rooted:
  "rooted cs c \<Longrightarrow> ExceptIsDerived cs c p = Some (on_parent_chain cs c p)"
proof (induction rule: rooted.induct)
  case (rooted_root c)
  then show ?case
    by (subst ExceptIsDerived.simps) (simp add: chain_root_iff)
next
  case (rooted_up c q)
  show ?case
  proof (cases "c = p")
    case True
    then show ?thesis by (simp add: ExceptIsDerived_refl chain_self)
  next
    case False
    with rooted_up show ?thesis
      by (subst ExceptIsDerived.simps) (simp add: chain_step_iff)
  qed
qed

text \<open>The classes that Except.c defines: their parent links, and that each leads to a root.\<close>

lemma declared_parent:
  "parent (declared_classes Throwable) = None"
  "parent (declared_classes Exception) = Some Throwable"
  "parent (declared_classes OutOfMemoryError) = Some Exception"
  "parent (declared_classes FailedAssertion) = Some Exception"
  "parent (declared_classes RuntimeException) = Some Exception"
  "parent (declared_classes AbnormalTermination) = Some RuntimeException"
  "parent (declared_classes ArithmeticException) = Some RuntimeException"
  "parent (declared_classes IllegalInstruction) = Some RuntimeException"
  "parent (declared_classes SegmentationFault) = Some RuntimeException"
  "parent (declared_classes BusError) = Some RuntimeException"
  "parent (declared_classes ReturnEvent) = None"
  by (simp_all add: declared_classes_def class_refs except_class_define_def root_class_def)

lemma declared_rooted:
  "rooted declared_classes Throwable"
  "rooted declared_classes Exception"
  "rooted declared_classes OutOfMemoryError"
  "rooted declared_classes FailedAssertion"
  "rooted declared_classes RuntimeException"
  "rooted declared_classes AbnormalTermination"
  "rooted declared_classes ArithmeticException"
  "rooted declared_classes IllegalInstruction"
  "rooted declared_classes SegmentationFault"
  "rooted declared_classes BusError"
  "rooted declared_classes ReturnEvent"
proof -
  show t: "rooted declared_classes Throwable"
    by (rule rooted_root) (rule declared_parent)
  show e: "rooted declared_classes Exception"
    by (rule rooted_up [OF declared_parent(2) t])
  show "rooted declared_classes OutOfMemoryError"
    by (rule rooted_up [OF declared_parent(3) e])
  show "rooted declared_classes FailedAssertion"
    by (rule rooted_up [OF declared_parent(4) e])
  show r: "rooted declared_classes RuntimeException"
    by (rule rooted_up [OF declared_parent(5) e])
  show "rooted declared_classes AbnormalTermination"
    by (rule rooted_up [OF declared_parent(6) r])
  show "rooted declared_classes ArithmeticException"
    by (rule rooted_up [OF declared_parent(7) r])
  show "rooted declared_classes IllegalInstruction"
    by (rule rooted_up [OF declared_parent(8) r])
  show "rooted declared_classes SegmentationFault"
    by (rule rooted_up [OF declared_parent(9) r])
  show "rooted declared_classes BusError"
    by (rule rooted_up [OF declared_parent(10) r])
  show "rooted declared_classes ReturnEvent"
    by (rule rooted_root) (rule declared_parent)
qed

lemma declared_notRethrown: "notRethrown (declared_classes k) = 1"
  by (simp add: declared_classes_def except_class_define_def root_class_def)

lemma ExceptIsDerived_declared:
  "ExceptIsDerived declared_classes SegmentationFault Exception = Some True"
  "ExceptIsDerived declared_classes SegmentationFault RuntimeException = Some True"
  "ExceptIsDerived declared_classes SegmentationFault FailedAssertion = Some False"
  "ExceptIsDerived declared_classes Exception RuntimeException = Some False"
  "ExceptIsDerived declared_classes Exception Throwable = Some True"
  "ExceptIsDerived declared_classes Exception Exception = Some True"
  by (simp_all add: ExceptIsDerived.simps declared_parent) (simp_all add: class_refs)

text \<open>
  C1.  For a class \<open>C\<close> whose parent links lead to a root (as they do for every
  class of the declared tree, \<open>declared_rooted\<close>), \<open>ExceptIsDerived C C\<close>
  returns true, and \<open>ExceptIsDerived C P\<close> returns, and returns true exactly
  when \<open>P\<close> is on the chain of parent links that starts at \<open>C\<close>, the class
  \<open>C\<close> included.  The walk ends because the chain reaches a class with an
  empty parent link.
\<close>

theorem is_derived_parent_chain:
  assumes "rooted cs C"
  shows "ExceptIsDerived cs C C = Some True \<and>
         ExceptIsDerived cs C P = Some (on_parent_chain cs C P)"
  using assms by (simp add: ExceptIsDerived_refl ExceptIsDerived_rooted)

theorem is_derived_parent_chain_witness:
  "rooted declared_classes SegmentationFault \<and>
   ExceptIsDerived declared_classes SegmentationFault SegmentationFault = Some True \<and>
   ExceptIsDerived declared_classes SegmentationFault Exception = Some True \<and>
   on_parent_chain declared_classes SegmentationFault Exception"
  using is_derived_parent_chain [OF declared_rooted(9), of Exception] declared_rooted(9)
  by (simp add: ExceptIsDerived_declared)

section \<open>Matching a catch clause\<close>

lemma ExceptGetContext_current:
  "current_context cfg w = Some c \<Longrightarrow> ExceptGetContext cfg pC w"
  by (auto simp: ExceptGetContext_def current_context_def HashLookup_def
      split: option.splits if_splits)

lemmas example_defs =
  single_threaded_def initial_world_def world_with_def handle_def calloc_Except_def
  zero_Context_def current_context_def store_context_def

text \<open>
  C10.  When the state of the top handle is already \<open>CAUGHT\<close>,
  \<open>ExceptCatch\<close> returns true for every class, whether or not the class of
  the caught exception is derived from it, and nothing changes: not the state
  of the handle, not the description of the exception.
\<close>

theorem catch_when_caught:
  assumes "current_context cfg w = Some c" and "exStack c = Some (e # es)" and "state e = CAUGHT"
  shows "ExceptCatch cfg pC cl w = (Returns True, w)"
  using assms by (simp add: ExceptCatch_def ExceptGetContext_current)

theorem catch_when_caught_witness:
  "current_context single_threaded
       (world_with [handle CATCH CAUGHT (Some Exception) NULL (Some ''Test.c'') 40 1])
     = Some (zero_Context\<lparr>exStack :=
               Some [handle CATCH CAUGHT (Some Exception) NULL (Some ''Test.c'') 40 1]\<rparr>) \<and>
   state (handle CATCH CAUGHT (Some Exception) NULL (Some ''Test.c'') 40 1) = CAUGHT \<and>
   ExceptIsDerived declared_classes Exception RuntimeException = Some False \<and>
   ExceptCatch single_threaded True RuntimeException
       (world_with [handle CATCH CAUGHT (Some Exception) NULL (Some ''Test.c'') 40 1])
     = (Returns True, world_with [handle CATCH CAUGHT (Some Exception) NULL (Some ''Test.c'') 40 1])"
  using catch_when_caught [of single_threaded
      "world_with [handle CATCH CAUGHT (Some Exception) NULL (Some ''Test.c'') 40 1]"
      "zero_Context\<lparr>exStack :=
         Some [handle CATCH CAUGHT (Some Exception) NULL (Some ''Test.c'') 40 1]\<rparr>"
      "handle CATCH CAUGHT (Some Exception) NULL (Some ''Test.c'') 40 1" "[]" True RuntimeException]
  by (simp add: example_defs ExceptIsDerived_declared)

text \<open>
  C2, as the code has it.  Let \<open>ExceptCatch\<close> be called when the state of the
  top handle is \<open>PENDING\<close> or \<open>CAUGHT\<close> (the handle holds a class whose
  parent links lead to a root).  If the state is \<open>PENDING\<close> and the class of
  the handle is derived from the class given, the state becomes \<open>CAUGHT\<close> and
  true is returned.  In every other case the handle is left unchanged; the
  value returned is then false when the state is \<open>PENDING\<close> and true when the
  state is already \<open>CAUGHT\<close>.
\<close>

theorem catch_match:
  assumes "current_context cfg w = Some c" and "exStack c = Some (e # es)"
    and "state e = PENDING \<or> state e = CAUGHT"
    and "exn_class e = Some k" and "rooted (classes w) k"
  shows "ExceptCatch cfg pC cl w =
           (if state e = PENDING \<and> on_parent_chain (classes w) k cl
            then (Returns True,
                  store_context cfg (c\<lparr>exStack := Some (e\<lparr>state := CAUGHT\<rparr> # es)\<rparr>) w)
            else (Returns (state e = CAUGHT), w))"
  using assms by (auto simp: ExceptCatch_def ExceptGetContext_current ExceptIsDerived_rooted)

theorem catch_match_witness:
  "current_context single_threaded
       (world_with [handle TRY PENDING (Some SegmentationFault) NULL (Some ''?'') 0 1])
     = Some (zero_Context\<lparr>exStack :=
               Some [handle TRY PENDING (Some SegmentationFault) NULL (Some ''?'') 0 1]\<rparr>) \<and>
   rooted (classes (world_with [handle TRY PENDING (Some SegmentationFault) NULL (Some ''?'') 0 1]))
     SegmentationFault \<and>
   on_parent_chain declared_classes SegmentationFault RuntimeException \<and>
   ExceptCatch single_threaded True RuntimeException
       (world_with [handle TRY PENDING (Some SegmentationFault) NULL (Some ''?'') 0 1])
     = (Returns True, world_with [handle TRY CAUGHT (Some SegmentationFault) NULL (Some ''?'') 0 1])"
proof -
  have r: "rooted (classes (world_with
             [handle TRY PENDING (Some SegmentationFault) NULL (Some ''?'') 0 1])) SegmentationFault"
    by (simp add: world_with_def initial_world_def declared_rooted)
  have c: "on_parent_chain declared_classes SegmentationFault RuntimeException"
    by (rule chain_up [where q = RuntimeException]) (simp_all add: declared_parent chain_self)
  show ?thesis
    using catch_match [of single_threaded
      "world_with [handle TRY PENDING (Some SegmentationFault) NULL (Some ''?'') 0 1]"
      "zero_Context\<lparr>exStack :=
         Some [handle TRY PENDING (Some SegmentationFault) NULL (Some ''?'') 0 1]\<rparr>"
      "handle TRY PENDING (Some SegmentationFault) NULL (Some ''?'') 0 1" "[]"
      SegmentationFault True RuntimeException]
      r c
    by (simp add: example_defs)
qed

text \<open>
  The claim C2 as the specification words it has false returned in every case
  but the matching one.  With the state \<open>CAUGHT\<close>, which its precondition
  admits, the routine returns true.
\<close>

theorem catch_false_counterexample:
  "state (handle CATCH CAUGHT (Some Exception) NULL (Some ''Test.c'') 40 1) = CAUGHT \<and>
   fst (ExceptCatch single_threaded True Throwable
          (world_with [handle CATCH CAUGHT (Some Exception) NULL (Some ''Test.c'') 40 1]))
     \<noteq> Returns False"
  by (simp add: ExceptCatch_def ExceptGetContext_def example_defs)

section \<open>Throwing\<close>

text \<open>
  C7.  When the current flow has no context, or its context has no stack or an
  empty one, \<open>ExceptThrow\<close> of a class writes one line to \<open>stderr\<close>, made of
  the name of the class, the file and the line
  (\<^verbatim>\<open><class> lost: file "<f>", line <l>.\<close>), and returns; nothing else of
  the world changes.
\<close>

theorem throw_lost_outside:
  assumes "frames cfg w = []" and "pC \<longrightarrow> current_context cfg w \<noteq> None"
  shows "ExceptThrow cfg pC (ClassArg k) d (Some f) l w =
           (Returns (), w\<lparr>err := err w @ [lost_line (name (classes w k)) f l]\<rparr>)"
  using assms
  by (auto simp: ExceptThrow_def frames_def throw_lost_def fprintf_stderr_def
      ExceptGetContext_current ExceptGetContext_def current_context_def HashLookup_def
      split: option.splits list.splits if_splits)

theorem throw_lost_outside_witness:
  "frames single_threaded initial_world = [] \<and>
   current_context single_threaded initial_world \<noteq> None \<and>
   ExceptThrow single_threaded False (ClassArg Exception) NULL (Some ''Test.c'') 40 initial_world =
     (Returns (),
      initial_world\<lparr>err := [''Exception lost: file '' @ [dquote] @ ''Test.c'' @ [dquote] @
                             '', line 40.'' @ [newline]]\<rparr>)"
  using throw_lost_outside [of single_threaded initial_world False Exception NULL "''Test.c''" 40]
  by (simp add: example_defs frames_def lost_line_def fmt_d_def dec.simps digit_def
      declared_classes_def class_refs except_class_define_def)


section \<open>Facts about the context store\<close>

lemma current_store [simp]:
  "current_context cfg w = Some c \<Longrightarrow> current_context cfg (store_context cfg c' w) = Some c'"
  by (auto simp: current_context_def store_context_def HashLookup_def
      split: option.splits if_splits)

lemma store_store [simp]:
  "store_context cfg c2 (store_context cfg c1 w) = store_context cfg c2 w"
  by (cases "pContextHash w") (auto simp: store_context_def)

lemma store_fields [simp]:
  "classes (store_context cfg c w) = classes w"
  "err (store_context cfg c w) = err w"
  "disposition (store_context cfg c w) = disposition w"
  "numThreadsTry (store_context cfg c w) = numThreadsTry w"
  by (simp_all add: store_context_def)

lemma current_with_frames [simp]:
  "current_context cfg w = Some c \<Longrightarrow>
   current_context cfg (with_frames cfg c' st w) = Some (c'\<lparr>exStack := Some st\<rparr>)"
  by (simp add: with_frames_def)

lemma restore_signals_fields [simp]:
  "classes (restore_signals cfg a f i s b w) = classes w"
  "err (restore_signals cfg a f i s b w) = err w"
  "defaultContext (restore_signals cfg a f i s b w) = defaultContext w"
  "pContextHash (restore_signals cfg a f i s b w) = pContextHash w"
  by (simp_all add: restore_signals_def signal_def Let_def split: option.splits)

lemma ExceptRestoreHandlers_fields:
  assumes "ExceptRestoreHandlers cfg c w = (restored, w2)"
  shows "classes w2 = classes w" and "err w2 = err w"
    and "defaultContext w2 = defaultContext w" and "pContextHash w2 = pContextHash w"
  using assms by (auto simp: ExceptRestoreHandlers_def Let_def split: if_splits)

lemma ExceptRestoreHandlers_current:
  assumes "ExceptRestoreHandlers cfg c w = (restored, w2)"
  shows "current_context cfg w2 = current_context cfg w"
  using ExceptRestoreHandlers_fields [OF assms] by (simp add: current_context_def)

lemma destroyed_destroy [simp]: "context_destroyed cfg (destroy_context cfg w)"
  by (auto simp: context_destroyed_def destroy_context_def current_context_def HashLookup_def
      split: option.splits)


lemma current_fprintf [simp]:
  "current_context cfg (fprintf_stderr s w) = current_context cfg w"
  by (simp add: current_context_def fprintf_stderr_def)

lemma destroyed_fprintf [simp]:
  "context_destroyed cfg (fprintf_stderr s w) = context_destroyed cfg w"
  by (simp add: context_destroyed_def fprintf_stderr_def current_context_def)


lemma world_with_frames [simp]:
  "with_frames single_threaded (zero_Context\<lparr>exStack := x\<rparr>) st (world_with st') = world_with st"
  by (simp add: with_frames_def world_with_def store_context_def single_threaded_def)

lemma current_world_with [simp]:
  "current_context single_threaded (world_with st) = Some (zero_Context\<lparr>exStack := Some st\<rparr>)"
  by (simp add: current_context_def world_with_def single_threaded_def)

lemma classes_world_with [simp]: "classes (world_with st) = declared_classes"
  by (simp add: world_with_def initial_world_def)

lemma single_threaded_simps [simp]:
  "MULTI_THREADING single_threaded = False" "SHARE_HANDLERS single_threaded = False"
  "DO_ABORT single_threaded = False" "SIGABRT single_threaded = 6" "SIGFPE single_threaded = 8"
  "SIGILL single_threaded = 4" "SIGSEGV single_threaded = 11" "SIGBUS single_threaded = Some 7"
  "thread_id single_threaded = 0"
  by (simp_all add: single_threaded_def)

lemmas eval_defs =
  ExceptFinally_def ExceptThrow_def ExceptGetContext_def ExceptRestoreHandlers_def
  restore_signals_def signal_def default_action_def raise_def AssertAction_def ExceptGetScope_def
  destroy_context_def fprintf_stderr_def context_destroyed_def arg_notRethrown_def frame_at_def
  current_context_def store_context_def world_with_def initial_world_def handle_def
  calloc_Except_def zero_Context_def single_threaded_def

lemma example_handles [simp]:
  "ex_notRethrown caught_handle = 0" "scope caught_handle = CATCH" "ready caught_handle = 1"
  "exn_class caught_handle = Some Exception" "state caught_handle = CAUGHT"
  "pData caught_handle = String ''Hello''" "exn_file caught_handle = Some ''Test.c''"
  "line caught_handle = 500" "finalBuf caught_handle = SetByFinally 2"
  "scope outer_handle = TRY" "throwBuf outer_handle = SetByTry 1" "state outer_handle = EMPTY"
  by (simp_all add: caught_handle_def outer_handle_def handle_def calloc_Except_def)

section \<open>Propagation\<close>

text \<open>
  C3.  Let \<open>ExceptFinally\<close> pop a handle whose state is \<open>PENDING\<close> while
  another handle remains below it, the pending exception not being a
  \<open>ReturnEvent\<close> with the flag \<open>first\<close> set (and its class having
  \<open>notRethrown\<close> set, as every class has).  Then the exception is thrown
  into the handle that is now on top, with the class, the data, the file and
  the line of the popped handle, and control goes where \<open>ExceptThrow\<close> sends
  it for the scope of that handle.  A \<open>catch\<close> clause of the outer
  statement whose class the exception is derived from then matches, and the
  handle it sees holds the class, file and line of the first throw.
\<close>

theorem finally_propagates:
  assumes "current_context cfg w = Some c" and "exStack c = Some (ex # e' # es)"
    and "state ex = PENDING" and "exn_class ex = Some k"
    and "\<not> (k = ReturnEvent \<and> first ex)" and "notRethrown (classes w k) \<noteq> 0"
  shows "ExceptFinally cfg pC w =
           ((case scope e' of
               TRY \<Rightarrow> LongJmps (throwBuf e')
             | CATCH \<Rightarrow> LongJmps (finalBuf e')
             | FINALLY \<Rightarrow> LongJmps (finalBuf e')
             | _ \<Rightarrow> Returns 0),
            with_frames cfg c (thrown_into e' k (pData ex) (exn_file ex) (line ex) # es) w) \<and>
         (rooted (classes w) k \<and> on_parent_chain (classes w) k cl \<longrightarrow>
            ExceptCatch cfg pC' cl
                (with_frames cfg c (thrown_into e' k (pData ex) (exn_file ex) (line ex) # es) w) =
              (Returns True,
               with_frames cfg c
                 ((thrown_into e' k (pData ex) (exn_file ex) (line ex))\<lparr>state := CAUGHT\<rparr> # es) w))"
proof -
  have "ExceptFinally cfg pC w =
           ((case scope e' of
               TRY \<Rightarrow> LongJmps (throwBuf e')
             | CATCH \<Rightarrow> LongJmps (finalBuf e')
             | FINALLY \<Rightarrow> LongJmps (finalBuf e')
             | _ \<Rightarrow> Returns 0),
            with_frames cfg c (thrown_into e' k (pData ex) (exn_file ex) (line ex) # es) w)"
    using assms
    by (auto simp: ExceptFinally_def ExceptThrow_def ExceptGetContext_current arg_notRethrown_def
        with_frames_def thrown_into_def Let_def split: Scope.splits)
  moreover have "ExceptCatch cfg pC' cl
                (with_frames cfg c (thrown_into e' k (pData ex) (exn_file ex) (line ex) # es) w) =
              (Returns True,
               with_frames cfg c
                 ((thrown_into e' k (pData ex) (exn_file ex) (line ex))\<lparr>state := CAUGHT\<rparr> # es) w)"
    if "rooted (classes w) k" and "on_parent_chain (classes w) k cl"
    using that assms(1)
    by (simp add: ExceptCatch_def ExceptGetContext_current ExceptIsDerived_rooted
        with_frames_def thrown_into_def)
  ultimately show ?thesis by simp
qed

theorem finally_propagates_witness:
  "state (handle FINALLY PENDING (Some Exception) (String ''Hello'') (Some ''Test.c'') 500 2) = PENDING \<and>
   Exception \<noteq> ReturnEvent \<and>
   on_parent_chain declared_classes Exception Throwable \<and>
   ExceptFinally single_threaded True
       (world_with [handle FINALLY PENDING (Some Exception) (String ''Hello'') (Some ''Test.c'') 500 2,
                    handle TRY EMPTY None NULL None 0 1]) =
     (LongJmps (SetByTry 1),
      world_with [thrown_into (handle TRY EMPTY None NULL None 0 1) Exception (String ''Hello'')
                    (Some ''Test.c'') 500]) \<and>
   ExceptCatch single_threaded True Throwable
       (world_with [thrown_into (handle TRY EMPTY None NULL None 0 1) Exception (String ''Hello'')
                      (Some ''Test.c'') 500]) =
     (Returns True,
      world_with [handle TRY CAUGHT (Some Exception) (String ''Hello'') (Some ''Test.c'') 500 1
                    \<lparr>getMessage := Some ExceptGetMessage_addr, getData := Some ExceptGetData_addr,
                     printTryTrace := Some ExceptPrintTryTrace_addr\<rparr>])"
proof -
  have c: "on_parent_chain declared_classes Exception Throwable"
    by (rule chain_up [where q = Throwable]) (simp_all add: declared_parent chain_self)
  have n: "Exception \<noteq> ReturnEvent"
    by (simp add: class_refs)
  show ?thesis
    using finally_propagates [of single_threaded
        "world_with [handle FINALLY PENDING (Some Exception) (String ''Hello'') (Some ''Test.c'') 500 2,
                     handle TRY EMPTY None NULL None 0 1]"
        "zero_Context\<lparr>exStack := Some
           [handle FINALLY PENDING (Some Exception) (String ''Hello'') (Some ''Test.c'') 500 2,
            handle TRY EMPTY None NULL None 0 1]\<rparr>"
        "handle FINALLY PENDING (Some Exception) (String ''Hello'') (Some ''Test.c'') 500 2"
        "handle TRY EMPTY None NULL None 0 1" "[]" Exception True Throwable True]
      c n
    by (simp add: declared_rooted declared_notRethrown)
       (simp add: handle_def thrown_into_def calloc_Except_def)
qed


section \<open>Traps\<close>

text \<open>
  C8.  The signal numbers of the platform being distinct, the handler
  \<open>ExceptThrowSignal\<close>, when it is delivered one of the trap signals
  (\<open>SIGABRT\<close>, \<open>SIGFPE\<close>, \<open>SIGILL\<close>, \<open>SIGSEGV\<close>, and \<open>SIGBUS\<close> where the
  platform has it), installs itself again for that signal, stores the number
  in the member \<open>signalNumber\<close> of the matching class
  (\<open>AbnormalTermination\<close>, \<open>ArithmeticException\<close>, \<open>IllegalInstruction\<close>,
  \<open>SegmentationFault\<close>, \<open>BusError\<close>), and calls \<open>ExceptThrow\<close> with a
  null context pointer, that class, no data, the file \<open>"?"\<close> and the line 0.
\<close>

theorem signal_translation:
  assumes "distinct ([SIGABRT cfg, SIGFPE cfg, SIGILL cfg, SIGSEGV cfg] @
                     (case SIGBUS cfg of None \<Rightarrow> [] | Some b \<Rightarrow> [b]))"
    and "(number, k) \<in> set ([(SIGABRT cfg, AbnormalTermination), (SIGFPE cfg, ArithmeticException),
                            (SIGILL cfg, IllegalInstruction), (SIGSEGV cfg, SegmentationFault)] @
                           (case SIGBUS cfg of None \<Rightarrow> [] | Some b \<Rightarrow> [(b, BusError)]))"
  shows "ExceptThrowSignal cfg number w =
           ExceptThrow cfg False (ClassArg k) NULL (Some ''?'') 0
             (w\<lparr>disposition := (disposition w)(number := ExceptThrowSignal_addr),
                classes := (classes w)(k := (classes w k)\<lparr>signalNumber := number\<rparr>)\<rparr>)"
  using assms
  by (auto simp: ExceptThrowSignal_def signal_class_def signal_def Let_def split: option.splits)

theorem signal_translation_witness:
  "distinct ([SIGABRT single_threaded, SIGFPE single_threaded, SIGILL single_threaded,
              SIGSEGV single_threaded] @ [7]) \<and>
   SIGSEGV single_threaded = 11 \<and>
   fst (ExceptThrowSignal single_threaded 11 (world_with [handle TRY EMPTY None NULL None 0 1])) =
     LongJmps (SetByTry 1) \<and>
   disposition (snd (ExceptThrowSignal single_threaded 11
                       (world_with [handle TRY EMPTY None NULL None 0 1]))) 11 =
     ExceptThrowSignal_addr \<and>
   signalNumber (classes (snd (ExceptThrowSignal single_threaded 11
                                 (world_with [handle TRY EMPTY None NULL None 0 1])))
                   SegmentationFault) = 11 \<and>
   frames single_threaded (snd (ExceptThrowSignal single_threaded 11
                                  (world_with [handle TRY EMPTY None NULL None 0 1]))) =
     [thrown_into (handle TRY EMPTY None NULL None 0 1) SegmentationFault NULL (Some ''?'') 0]"
  using signal_translation [of single_threaded 11 SegmentationFault
      "world_with [handle TRY EMPTY None NULL None 0 1]"]
  by (simp add: single_threaded_def)
     (simp add: ExceptThrow_def ExceptGetContext_def arg_notRethrown_def frames_def
        current_context_def store_context_def world_with_def initial_world_def
        declared_notRethrown handle_def calloc_Except_def thrown_into_def zero_Context_def)

section \<open>The outermost level\<close>

lemma destroyed_eq:
  "pContextHash w' = pContextHash w \<Longrightarrow> defaultContext w' = defaultContext w \<Longrightarrow>
   context_destroyed cfg w' = context_destroyed cfg w"
  by (simp add: context_destroyed_def current_context_def)

lemma ExceptThrow_destroyed:
  "context_destroyed cfg w \<Longrightarrow> ExceptThrow cfg False a d f l w = throw_lost a f l w"
  by (auto simp: ExceptThrow_def context_destroyed_def ExceptGetContext_def current_context_def
      HashLookup_def Let_def split: option.splits if_splits)

lemma throw_lost_destroyed:
  "throw_lost a f l w = (out, w') \<Longrightarrow>
   context_destroyed cfg w' = context_destroyed cfg w \<and> (\<forall>b. out \<noteq> LongJmps b)"
  by (auto simp: throw_lost_def split: ExceptOrClass.splits option.splits)

lemma ExceptThrowSignal_destroyed:
  assumes "context_destroyed cfg w" and "ExceptThrowSignal cfg number w = (out, w')"
  shows "context_destroyed cfg w' \<and> (\<forall>b. out \<noteq> LongJmps b)"
proof (cases "signal_class cfg number")
  case None
  with assms(2) have "out = Faults" "w' = snd (signal number ExceptThrowSignal_addr w)"
    by (simp_all add: ExceptThrowSignal_def Let_def)
  moreover have "context_destroyed cfg (snd (signal number ExceptThrowSignal_addr w)) =
                 context_destroyed cfg w"
    by (rule destroyed_eq) (simp_all add: signal_def)
  ultimately show ?thesis using assms(1) by simp
next
  case (Some k)
  let ?w1 = "snd (signal number ExceptThrowSignal_addr w)"
  let ?w2 = "?w1\<lparr>classes := (classes ?w1)(k := (classes ?w1 k)\<lparr>signalNumber := number\<rparr>)\<rparr>"
  have "context_destroyed cfg ?w2 = context_destroyed cfg w"
    by (rule destroyed_eq) (simp_all add: signal_def)
  with assms(1) have d: "context_destroyed cfg ?w2" by simp
  from assms(2) Some have "ExceptThrow cfg False (ClassArg k) NULL (Some ''?'') 0 ?w2 = (out, w')"
    by (simp add: ExceptThrowSignal_def Let_def)
  then have "throw_lost (ClassArg k) (Some ''?'') 0 ?w2 = (out, w')"
    by (simp add: ExceptThrow_destroyed [OF d])
  from throw_lost_destroyed [OF this] d show ?thesis by simp
qed

lemma raise_destroyed:
  assumes "context_destroyed cfg w" and "raise cfg number w = (out, w')"
  shows "context_destroyed cfg w' \<and> (\<forall>b. out \<noteq> LongJmps b)"
proof (cases "number \<noteq> 0 \<and> disposition w number = ExceptThrowSignal_addr")
  case True
  with assms(2) have "ExceptThrowSignal cfg number w = (out, w')"
    by (simp add: raise_def)
  from ExceptThrowSignal_destroyed [OF assms(1) this] show ?thesis .
next
  case False
  with assms show ?thesis
    by (auto simp: raise_def split: if_splits Handler.splits)
qed









section \<open>Rethrowing\<close>

text \<open>
  C5, as the code has it.  Let \<open>throw\<close> be called in a \<open>catch\<close> block with
  the handle of that block as its first argument and new data \<open>data2\<close>, an
  enclosing \<open>try\<close> statement being under way.  \<open>ExceptThrow\<close> changes
  nothing of the handle but its state and jumps to \<open>finalBuf\<close>; after the
  \<open>finally\<close> block (here one that does nothing), \<open>ExceptFinally\<close> throws
  the exception into the enclosing handle with the class, the file, the line
  and also the data of the original throw.  The data given to the rethrow
  (and its file and line) are not used.
\<close>

theorem rethrow_keeps_exception:
  assumes "current_context cfg w = Some c" and "exStack c = Some (e # e' # es)"
    and "ex_notRethrown e = 0" and "scope e = CATCH" and "ready e = 1"
    and "exn_class e = Some k" and "\<not> (k = ReturnEvent \<and> first e)"
    and "notRethrown (classes w k) \<noteq> 0"
  shows "ExceptThrow cfg pC (ExceptArg (length (e # e' # es))) data2 f2 l2 w =
           (LongJmps (finalBuf e), with_frames cfg c (e\<lparr>state := PENDING\<rparr> # e' # es) w) \<and>
         finally_macro cfg pC1 (with_frames cfg c (e\<lparr>state := PENDING\<rparr> # e' # es) w) =
           (Returns True,
            with_frames cfg c (e\<lparr>state := PENDING, scope := FINALLY, ready := 0\<rparr> # e' # es) w) \<and>
         finally_block_end cfg pC2
             (with_frames cfg c (e\<lparr>state := PENDING, scope := FINALLY, ready := 0\<rparr> # e' # es) w) =
           (Returns (),
            with_frames cfg c (e\<lparr>state := PENDING, scope := FINALLY, ready := - 1\<rparr> # e' # es) w) \<and>
         ExceptFinally cfg pC3
             (with_frames cfg c (e\<lparr>state := PENDING, scope := FINALLY, ready := - 1\<rparr> # e' # es) w) =
           ((case scope e' of
               TRY \<Rightarrow> LongJmps (throwBuf e')
             | CATCH \<Rightarrow> LongJmps (finalBuf e')
             | FINALLY \<Rightarrow> LongJmps (finalBuf e')
             | _ \<Rightarrow> Returns 0),
            with_frames cfg c (thrown_into e' k (pData e) (exn_file e) (line e) # es) w)"
proof -
  have cur: "\<And>st. current_context cfg (with_frames cfg c st w) = Some (c\<lparr>exStack := Some st\<rparr>)"
    using assms(1) by simp
  have t: "ExceptThrow cfg pC (ExceptArg (length (e # e' # es))) data2 f2 l2 w =
           (LongJmps (finalBuf e), with_frames cfg c (e\<lparr>state := PENDING\<rparr> # e' # es) w)"
    using assms(1-4)
    by (simp add: ExceptThrow_def ExceptGetContext_current arg_notRethrown_def frame_at_def
        with_frames_def Let_def)
  have m: "finally_macro cfg pC1 (with_frames cfg c (e\<lparr>state := PENDING\<rparr> # e' # es) w) =
           (Returns True,
            with_frames cfg c (e\<lparr>state := PENDING, scope := FINALLY, ready := 0\<rparr> # e' # es) w)"
    using assms(5) cur
    by (simp add: finally_macro_def ExceptGetContext_current update_top_def top_frame_def
        with_frames_def)
  have b: "finally_block_end cfg pC2
             (with_frames cfg c (e\<lparr>state := PENDING, scope := FINALLY, ready := 0\<rparr> # e' # es) w) =
           (Returns (),
            with_frames cfg c (e\<lparr>state := PENDING, scope := FINALLY, ready := - 1\<rparr> # e' # es) w)"
    using cur
    by (simp add: finally_block_end_def ExceptGetContext_current update_top_def with_frames_def)
  have f: "ExceptFinally cfg pC3
             (with_frames cfg c (e\<lparr>state := PENDING, scope := FINALLY, ready := - 1\<rparr> # e' # es) w) =
           ((case scope e' of
               TRY \<Rightarrow> LongJmps (throwBuf e')
             | CATCH \<Rightarrow> LongJmps (finalBuf e')
             | FINALLY \<Rightarrow> LongJmps (finalBuf e')
             | _ \<Rightarrow> Returns 0),
            with_frames cfg c (thrown_into e' k (pData e) (exn_file e) (line e) # es) w)"
    using assms(6-8) cur
    by (auto simp: ExceptFinally_def ExceptThrow_def ExceptGetContext_current arg_notRethrown_def
        with_frames_def thrown_into_def Let_def split: Scope.splits)
  from t m b f show ?thesis by simp
qed

theorem rethrow_keeps_exception_witness:
  "scope caught_handle = CATCH \<and> pData caught_handle = String ''Hello'' \<and>
   ExceptThrow single_threaded True (ExceptArg 2) (String ''there!'') (Some ''Test.c'') 503
       (world_with [caught_handle, outer_handle]) =
     (LongJmps (SetByFinally 2), world_with [caught_handle\<lparr>state := PENDING\<rparr>, outer_handle]) \<and>
   ExceptFinally single_threaded True
       (world_with [caught_handle\<lparr>state := PENDING, scope := FINALLY, ready := - 1\<rparr>, outer_handle]) =
     (LongJmps (SetByTry 1),
      world_with [thrown_into outer_handle Exception (String ''Hello'') (Some ''Test.c'') 500])"
proof -
  have n: "Exception \<noteq> ReturnEvent"
    by (simp add: class_refs)
  show ?thesis
    using rethrow_keeps_exception [of single_threaded "world_with [caught_handle, outer_handle]"
        "zero_Context\<lparr>exStack := Some [caught_handle, outer_handle]\<rparr>"
        caught_handle outer_handle "[]" Exception True "String ''there!''" "Some ''Test.c''" 503
        True True True] n
    by (simp add: declared_notRethrown numeral_2_eq_2)
qed

text \<open>
  The claim C5 as the specification words it has the data replaced.  In the
  rethrow test of Test.c (\<open>throw (Exception, "Hello")\<close> caught and rethrown
  by \<open>throw (e, "there!")\<close>), the handle of the outer statement receives
  \<open>"Hello"\<close>, which is what the test expects to be printed.
\<close>

theorem rethrow_data_counterexample:
  "map_option pData
     (top_frame single_threaded
        (snd (ExceptFinally single_threaded True
           (snd (finally_block_end single_threaded True
              (snd (finally_macro single_threaded True
                 (snd (ExceptThrow single_threaded True (ExceptArg 2) (String ''there!'')
                         (Some ''Test.c'') 503
                         (world_with [caught_handle, outer_handle])))))))))) =
   Some (String ''Hello'')"
  by (simp add: eval_defs finally_macro_def finally_block_end_def update_top_def top_frame_def
      caught_handle_def outer_handle_def declared_notRethrown class_refs Let_def)


section \<open>The checker of catch clauses\<close>

lemma unshadowed_append:
  "unshadowed cs (xs @ [x]) \<longleftrightarrow>
     unshadowed cs xs \<and> (\<forall>y \<in> set xs. \<not> on_parent_chain cs (fst x) (fst y))"
  by (induction xs) auto

lemma spec_check_Cons:
  "cl \<noteq> k \<Longrightarrow> \<not> on_parent_chain cs cl k \<Longrightarrow>
   spec_check cs f ((k, l0) # rest) (cl, l) = spec_check cs f rest (cl, l)"
  by (simp split: option.splits)

lemma find_dup_None:
  "\<forall>y \<in> set rest. fst y \<noteq> cl \<Longrightarrow> find (\<lambda>(k, l0). k = cl) rest = None"
  by (induction rest) auto

lemma check_walk_spec:
  assumes "rooted cs cl" and "unshadowed cs recorded"
  shows "check_walk cs cl f l recorded = Returns (spec_check cs f recorded (cl, l))"
  using assms(2)
proof (induction recorded)
  case Nil
  then show ?case by simp
next
  case (Cons x rest)
  obtain k l0 where x: "x = (k, l0)" by (cases x)
  show ?case
  proof (cases "cl = k")
    case True
    then show ?thesis by (simp add: x)
  next
    case False
    show ?thesis
    proof (cases "on_parent_chain cs cl k")
      case True
      from Cons.prems x have "\<forall>y \<in> set rest. \<not> on_parent_chain cs (fst y) k" by simp
      with True have "\<forall>y \<in> set rest. fst y \<noteq> cl" by auto
      then have "find (\<lambda>(k, l0). k = cl) rest = None" by (rule find_dup_None)
      with True False show ?thesis
        by (simp add: x ExceptIsDerived_rooted [OF assms(1)])
    next
      case nc: False
      from Cons.prems have "unshadowed cs rest" by simp
      then have "check_walk cs cl f l rest = Returns (spec_check cs f rest (cl, l))"
        by (rule Cons.IH)
      with False nc show ?thesis
        by (simp add: x ExceptIsDerived_rooted [OF assms(1)] spec_check_Cons del: spec_check.simps)
    qed
  qed
qed

lemma spec_check_None:
  "spec_check cs f recorded (cl, l) = None \<Longrightarrow>
   \<forall>y \<in> set recorded. \<not> on_parent_chain cs cl (fst y)"
proof (induction recorded)
  case Nil
  then show ?case by simp
next
  case (Cons x rest)
  obtain k l0 where x: "x = (k, l0)" by (cases x)
  from Cons.prems have a: "cl \<noteq> k" and b: "\<not> on_parent_chain cs cl k"
    by (auto simp: x split: option.splits if_splits)
  with Cons.prems have "spec_check cs f rest (cl, l) = None"
    by (simp add: x spec_check_Cons del: spec_check.simps)
  with Cons.IH b show ?case by (simp add: x)
qed

lemma store_current:
  "current_context cfg w = Some c \<Longrightarrow> store_context cfg c w = w"
  by (auto simp: current_context_def store_context_def HashLookup_def map_upd_triv
      split: option.splits if_splits)

lemma ExceptCheck_spec:
  assumes "current_context cfg w = Some c" and "exStack c = Some (e # es)"
    and "checkList e = Some recorded" and "rooted (classes w) cl"
    and "unshadowed (classes w) recorded"
  shows "ExceptCheck cfg True False cl f l w =
           (Returns False,
            case spec_check (classes w) f recorded (cl, l) of
              Some msg \<Rightarrow> fprintf_stderr msg w
            | None \<Rightarrow> with_frames cfg c (e\<lparr>checkList := Some (recorded @ [(cl, l)])\<rparr> # es) w)"
  using assms(1-3) check_walk_spec [OF assms(4,5), of f l]
  by (simp add: ExceptCheck_def with_frames_def split: option.splits)


lemma with_frames_err:
  "(with_frames cfg c st (w\<lparr>err := x\<rparr>)) = (with_frames cfg c st w)\<lparr>err := x\<rparr>"
  by (simp add: with_frames_def store_context_def)

lemma with_frames_twice [simp]:
  "with_frames cfg c' st' (with_frames cfg c st w) = with_frames cfg c' st' w"
  by (simp add: with_frames_def)

lemma with_frames_fields [simp]:
  "classes (with_frames cfg c st w) = classes w"
  "err (with_frames cfg c st w) = err w"
  by (simp_all add: with_frames_def)

lemma check_clauses_spec:
  assumes "current_context cfg w = Some c" and "exStack c = Some (e # es)"
    and "checkList e = Some recorded" and "unshadowed (classes w) recorded"
    and "\<forall>x \<in> set clauses. rooted (classes w) (fst x)"
  shows "check_clauses cfg f clauses w =
           (Returns False,
            (with_frames cfg c
               (e\<lparr>checkList := Some (fst (spec_audit (classes w) f recorded clauses))\<rparr> # es) w)
            \<lparr>err := err w @ snd (spec_audit (classes w) f recorded clauses)\<rparr>)"
  using assms
proof (induction clauses arbitrary: w c e recorded)
  case Nil
  have "e\<lparr>checkList := Some recorded\<rparr> = e"
    using Nil.prems(3) by (cases e) simp
  moreover have "c\<lparr>exStack := Some (e # es)\<rparr> = c"
    using Nil.prems(2) by (cases c) simp
  ultimately show ?case
    using Nil.prems(1) by (simp add: with_frames_def store_current)
next
  case (Cons x xs)
  obtain cl l where x: "x = (cl, l)" by (cases x)
  from Cons.prems(5) have r: "rooted (classes w) cl" and rs: "\<forall>y \<in> set xs. rooted (classes w) (fst y)"
    by (simp_all add: x)
  note step = ExceptCheck_spec [OF Cons.prems(1-3) r Cons.prems(4), of f l]
  show ?case
  proof (cases "spec_check (classes w) f recorded (cl, l)")
    case (Some msg)
    let ?w' = "fprintf_stderr msg w"
    have cur: "current_context cfg ?w' = Some c" using Cons.prems(1) by simp
    have cls: "classes ?w' = classes w" by (simp add: fprintf_stderr_def)
    have "check_clauses cfg f xs ?w' =
           (Returns False,
            (with_frames cfg c
               (e\<lparr>checkList := Some (fst (spec_audit (classes ?w') f recorded xs))\<rparr> # es) ?w')
            \<lparr>err := err ?w' @ snd (spec_audit (classes ?w') f recorded xs)\<rparr>)"
      using Cons.prems(2-4) rs by (intro Cons.IH [OF cur]) (simp_all add: cls)
    with step Some show ?thesis
      by (simp add: x cls fprintf_stderr_def with_frames_err split: prod.splits del: spec_check.simps)
  next
    case None
    let ?e1 = "e\<lparr>checkList := Some (recorded @ [(cl, l)])\<rparr>"
    let ?c1 = "c\<lparr>exStack := Some (?e1 # es)\<rparr>"
    let ?w' = "with_frames cfg c (?e1 # es) w"
    have cur: "current_context cfg ?w' = Some ?c1" using Cons.prems(1) by simp
    have un: "unshadowed (classes ?w') (recorded @ [(cl, l)])"
      using Cons.prems(4) spec_check_None [OF None] by (simp add: unshadowed_append)
    have "check_clauses cfg f xs ?w' =
           (Returns False,
            (with_frames cfg ?c1
               (?e1\<lparr>checkList := Some (fst (spec_audit (classes ?w') f (recorded @ [(cl, l)]) xs))\<rparr> # es) ?w')
            \<lparr>err := err ?w' @ snd (spec_audit (classes ?w') f (recorded @ [(cl, l)]) xs)\<rparr>)"
      using rs by (intro Cons.IH [OF cur _ _ un]) simp_all
    with step None show ?thesis
      by (simp add: x with_frames_def del: spec_check.simps)
  qed
qed

lemma spec_audit_nonempty:
  "recorded \<noteq> [] \<Longrightarrow> fst (spec_audit cs f recorded clauses) \<noteq> []"
proof (induction clauses arbitrary: recorded)
  case Nil
  then show ?case by simp
next
  case (Cons x xs)
  show ?case
  proof (cases "spec_check cs f recorded x")
    case None
    then show ?thesis using Cons.IH [of "recorded @ [x]"] by simp
  next
    case (Some msg)
    then show ?thesis using Cons.IH [OF Cons.prems] by (simp add: case_prod_beta)
  qed
qed

lemma spec_audit_empty_iff:
  "fst (spec_audit cs f [] clauses) = [] \<longleftrightarrow> clauses = []"
proof (cases clauses)
  case Nil
  then show ?thesis by simp
next
  case (Cons x xs)
  obtain cl l where "x = (cl, l)" by (cases x)
  with Cons show ?thesis
    using spec_audit_nonempty [of "[x]" cs f xs] by simp
qed

lemma with_frames_ctx [simp]:
  "with_frames cfg (c\<lparr>exStack := x\<rparr>) st w = with_frames cfg c st w"
  by (simp add: with_frames_def)

lemma current_err [simp]: "current_context cfg (w\<lparr>err := x\<rparr>) = current_context cfg w"
  by (simp add: current_context_def)

lemma with_frames_current:
  "current_context cfg w = Some c \<Longrightarrow> exStack c = Some st \<Longrightarrow> with_frames cfg c st w = w"
proof -
  assume a: "current_context cfg w = Some c" and b: "exStack c = Some st"
  from b have "c\<lparr>exStack := Some st\<rparr> = c" by (cases c) simp
  with a show ?thesis by (simp add: with_frames_def store_current)
qed

lemma ExceptCheckBegin_first:
  assumes "current_context cfg w = Some c" and "exStack c = Some (e # es)"
    and "checkList e = None"
  shows "ExceptCheckBegin cfg True False f l w =
           (Returns False, with_frames cfg c (e\<lparr>checkList := Some []\<rparr> # es) w)"
  using assms by (simp add: ExceptCheckBegin_def with_frames_def)

lemma ExceptCheckBegin_second:
  assumes "current_context cfg w = Some c" and "exStack c = Some (e # es)"
    and "checkList e = Some recorded"
  shows "ExceptCheckBegin cfg True False f l w =
           (Returns True,
            (with_frames cfg c (e\<lparr>checkList := None\<rparr> # es) w)
            \<lparr>err := err w @ (if recorded = [] then [no_catch_line f l] else [])\<rparr>)"
  using assms
  by (simp add: ExceptCheckBegin_def with_frames_def fprintf_stderr_def store_context_def)

text \<open>
  C9, as the code has it.  In the checking pass of a \<open>try\<close> statement (the
  classes of its \<open>catch\<close> clauses have parent links that lead to a root),
  each \<open>catch\<close> clause in turn is treated as \<open>spec_check\<close> says: if its
  class equals the class of an earlier clause that was recorded, a duplicate
  warning with both line numbers is printed; otherwise, if its class is
  derived from the class of a recorded earlier clause, a superfluous warning
  is printed; otherwise the clause is recorded.  A clause that drew a warning
  is not recorded.  At the end the warning about a statement without
  \<open>catch\<close> clauses is printed, with the file and line of the \<open>try\<close>,
  exactly when the record is empty, which is when there are no clauses; the
  list is destroyed, so that nothing but \<open>stderr\<close> has changed.
\<close>

theorem check_pass_spec:
  assumes "current_context cfg w = Some c" and "exStack c = Some (e # es)"
    and "checkList e = None"
    and "\<forall>x \<in> set clauses. rooted (classes w) (fst x)"
  shows "check_pass cfg f l clauses w =
           (Returns True,
            w\<lparr>err := err w @ snd (spec_audit (classes w) f [] clauses) @
                     (if clauses = [] then [no_catch_line f l] else [])\<rparr>)"
proof -
  let ?e0 = "e\<lparr>checkList := Some []\<rparr>"
  let ?w0 = "with_frames cfg c (?e0 # es) w"
  let ?R = "fst (spec_audit (classes w) f [] clauses)"
  let ?M = "snd (spec_audit (classes w) f [] clauses)"
  let ?eR = "e\<lparr>checkList := Some ?R\<rparr>"
  let ?w1 = "(with_frames cfg c (?eR # es) w)\<lparr>err := err w @ ?M\<rparr>"
  note b1 = ExceptCheckBegin_first [OF assms(1-3), of f l]
  have cur0: "current_context cfg ?w0 = Some (c\<lparr>exStack := Some (?e0 # es)\<rparr>)"
    using assms(1) by simp
  have cc: "check_clauses cfg f clauses ?w0 = (Returns False, ?w1)"
    using check_clauses_spec [OF cur0, of ?e0 es "[]" clauses f] assms(4) by simp
  have cur1: "current_context cfg ?w1 = Some (c\<lparr>exStack := Some (?eR # es)\<rparr>)"
    using assms(1) by simp
  have e: "?eR\<lparr>checkList := None\<rparr> = e" using assms(3) by (cases e) simp
  have "ExceptCheckBegin cfg True False f l ?w1 =
           (Returns True,
            (with_frames cfg (c\<lparr>exStack := Some (?eR # es)\<rparr>) (?eR\<lparr>checkList := None\<rparr> # es) ?w1)
            \<lparr>err := err ?w1 @ (if ?R = [] then [no_catch_line f l] else [])\<rparr>)"
    by (rule ExceptCheckBegin_second [OF cur1]) simp_all
  then have b2: "ExceptCheckBegin cfg True False f l ?w1 =
           (Returns True,
            w\<lparr>err := err w @ ?M @ (if clauses = [] then [no_catch_line f l] else [])\<rparr>)"
    unfolding e
    by (simp add: with_frames_err with_frames_current [OF assms(1,2)] spec_audit_empty_iff)
  show ?thesis
    unfolding check_pass_def b1 by (simp add: cc b2)
qed


lemma declared_chain_eval:
  "rooted declared_classes c \<Longrightarrow>
   on_parent_chain declared_classes c p = (ExceptIsDerived declared_classes c p = Some True)"
  by (simp add: ExceptIsDerived_rooted)

lemma declared_name:
  "name (declared_classes Throwable) = ''Throwable''"
  "name (declared_classes Exception) = ''Exception''"
  "name (declared_classes FailedAssertion) = ''FailedAssertion''"
  "name (declared_classes RuntimeException) = ''RuntimeException''"
  "name (declared_classes SegmentationFault) = ''SegmentationFault''"
  by (simp_all add: declared_classes_def class_refs except_class_define_def root_class_def)

lemma fresh_handle_simps [simp]: "checkList fresh_handle = None"
  by (simp add: fresh_handle_def calloc_Except_def)

theorem check_pass_spec_witness:
  "checkList fresh_handle = None \<and>
   rooted declared_classes SegmentationFault \<and> rooted declared_classes FailedAssertion \<and>
   rooted declared_classes RuntimeException \<and>
   check_pass single_threaded ''Test.c'' 9
       [(SegmentationFault, 10), (FailedAssertion, 11), (SegmentationFault, 12),
        (RuntimeException, 13)]
       (world_with [fresh_handle]) =
     (Returns True,
      (world_with [fresh_handle])
        \<lparr>err := [duplicate_line ''SegmentationFault'' ''Test.c'' 12 10]\<rparr>) \<and>
   check_pass single_threaded ''Test.c'' 9 [] (world_with [fresh_handle]) =
     (Returns True, (world_with [fresh_handle])\<lparr>err := [no_catch_line ''Test.c'' 9]\<rparr>)"
proof -
  have d: "ExceptIsDerived declared_classes FailedAssertion SegmentationFault = Some False"
    "ExceptIsDerived declared_classes RuntimeException SegmentationFault = Some False"
    "ExceptIsDerived declared_classes RuntimeException FailedAssertion = Some False"
    by (simp_all add: ExceptIsDerived.simps declared_parent) (simp_all add: class_refs)
  have n: "FailedAssertion \<noteq> SegmentationFault" "SegmentationFault \<noteq> FailedAssertion"
    "RuntimeException \<noteq> SegmentationFault" "SegmentationFault \<noteq> RuntimeException"
    "FailedAssertion \<noteq> RuntimeException" "RuntimeException \<noteq> FailedAssertion"
    by (simp_all add: class_refs)
  have e: "err (world_with [fresh_handle]) = []"
    by (simp add: world_with_def initial_world_def)
  show ?thesis
    using check_pass_spec [of single_threaded "world_with [fresh_handle]"
        "zero_Context\<lparr>exStack := Some [fresh_handle]\<rparr>" fresh_handle "[]"
        "[(SegmentationFault, 10), (FailedAssertion, 11), (SegmentationFault, 12),
          (RuntimeException, 13)]" "''Test.c''" 9]
      check_pass_spec [of single_threaded "world_with [fresh_handle]"
        "zero_Context\<lparr>exStack := Some [fresh_handle]\<rparr>" fresh_handle "[]" "[]" "''Test.c''" 9]
    by (simp add: declared_rooted declared_chain_eval d n e declared_name)
qed

text \<open>
  The claim C9 as the specification words it has a duplicate warning whenever
  the class equals that of an earlier clause of the statement.  For
  \<open>catch (Throwable)\<close>, \<open>catch (Exception)\<close>, \<open>catch (Exception)\<close> the
  second clause is superfluous and is not recorded, so the third one is
  reported as superfluous too, with the line of the first clause.
\<close>

theorem check_duplicate_counterexample:
  "err (snd (check_pass single_threaded ''Test.c'' 9
               [(Throwable, 10), (Exception, 11), (Exception, 12)]
               (world_with [fresh_handle]))) =
     [superfluous_line ''Exception'' ''Test.c'' 11 ''Throwable'' 10,
      superfluous_line ''Exception'' ''Test.c'' 12 ''Throwable'' 10]"
proof -
  have n: "Exception \<noteq> Throwable" by (simp add: class_refs)
  show ?thesis
    by (simp add: check_pass_def ExceptCheckBegin_def ExceptCheck_def fprintf_stderr_def
        ExceptIsDerived_declared n declared_name fresh_handle_def calloc_Except_def
        store_context_def current_context_def world_with_def initial_world_def
        zero_Context_def)
qed

section \<open>The machine keeps its invariant\<close>

lemma frames_Cons:
  "frames cfg w = e # es \<longleftrightarrow>
     (\<exists>c. current_context cfg w = Some c \<and> exStack c = Some (e # es))"
  by (auto simp: frames_def split: option.splits)

lemma frames_store:
  "current_context cfg w = Some c \<Longrightarrow>
   frames cfg (store_context cfg c' w) = (case exStack c' of Some st \<Rightarrow> st | None \<Rightarrow> [])"
  by (simp add: frames_def)

lemma frames_current:
  "current_context cfg w = Some c \<Longrightarrow>
   frames cfg w = (case exStack c of Some st \<Rightarrow> st | None \<Rightarrow> [])"
  by (simp add: frames_def)

lemma frames_fprintf [simp]: "frames cfg (fprintf_stderr s w) = frames cfg w"
  by (simp add: frames_def)

lemma throw_lost_effect:
  "throw_lost a f l w = (out, w') \<Longrightarrow>
   frames cfg w' = frames cfg w \<and> (out = Faults \<or> out = Returns ())"
  by (auto simp: throw_lost_def split: ExceptOrClass.splits option.splits)

lemma ExceptThrow_effect:
  assumes "ExceptThrow cfg pC a d f l w = (out, w')"
  shows "(frames cfg w' = frames cfg w \<and> out = Faults) \<or>
         (frames cfg w = [] \<and> frames cfg w' = [] \<and> out = Returns ()) \<or>
         (\<exists>e es e'. frames cfg w = e # es \<and> frames cfg w' = e' # es \<and> thrown e e' a d \<and>
                     out = throw_jump e)"
proof (cases "if \<not> pC then ExceptGetContext cfg False w else pC")
  case False
  with assms have "throw_lost a f l w = (out, w')"
    by (simp add: ExceptThrow_def split: if_splits)
  then have *: "frames cfg w' = frames cfg w \<and> (out = Faults \<or> out = Returns ())"
    by (rule throw_lost_effect)
  from False have "frames cfg w = []"
    by (auto simp: frames_def ExceptGetContext_def current_context_def HashLookup_def
        split: option.splits if_splits)
  with * show ?thesis by auto
next
  case True
  show ?thesis
  proof (cases "current_context cfg w")
    case None
    with True assms show ?thesis by (simp add: ExceptThrow_def split: if_splits)
  next
    case (Some c)
    show ?thesis
    proof (cases "exStack c = None \<or> exStack c = Some []")
      case lost: True
      with True Some assms have "throw_lost a f l w = (out, w')"
        by (auto simp: ExceptThrow_def split: if_splits)
      then have *: "frames cfg w' = frames cfg w \<and> (out = Faults \<or> out = Returns ())"
        by (rule throw_lost_effect)
      from lost Some have "frames cfg w = []" by (auto simp: frames_def)
      with * show ?thesis by auto
    next
      case False
      then obtain e es where st: "exStack c = Some (e # es)"
        by (cases "exStack c"; cases "the (exStack c)") auto
      have fr: "frames cfg w = e # es" using Some st by (simp add: frames_def)
      show ?thesis
      proof (cases "arg_notRethrown (classes w) (e # es) a")
        case None
        with True Some st assms show ?thesis by (simp add: ExceptThrow_def split: if_splits)
      next
        case nr: (Some nr)
        show ?thesis
        proof (cases "nr \<noteq> 0 \<and> (\<forall>k. a \<noteq> ClassArg k)")
          case True
          with \<open>if \<not> pC then ExceptGetContext cfg False w else pC\<close> Some st nr assms
          show ?thesis
            by (cases a) (simp_all add: ExceptThrow_def split: if_splits)
        next
          case False
          define e1 where "e1 = (if nr \<noteq> 0
               then (case a of ClassArg k \<Rightarrow>
                       e\<lparr>exn_class := Some k, pData := d, exn_file := f, line := l,
                         getMessage := Some ExceptGetMessage_addr,
                         getData := Some ExceptGetData_addr,
                         printTryTrace := Some ExceptPrintTryTrace_addr\<rparr> | _ \<Rightarrow> e)
               else e)"
          have res: "out = throw_jump e \<and>
                     w' = store_context cfg (c\<lparr>exStack := Some (e1\<lparr>state := PENDING\<rparr> # es)\<rparr>) w"
            using \<open>if \<not> pC then ExceptGetContext cfg False w else pC\<close> Some st nr assms False
            by (cases a; cases "scope e")
               (auto simp: ExceptThrow_def e1_def throw_jump_def Let_def split: if_splits)
          have th: "thrown e (e1\<lparr>state := PENDING\<rparr>) a d"
            using False by (cases a) (auto simp: thrown_def e1_def)
          from res have "frames cfg w' = e1\<lparr>state := PENDING\<rparr> # es"
            using Some by (simp add: frames_store)
          with fr th res show ?thesis by blast
        qed
      qed
    qed
  qed
qed


lemma quiet_refl [simp]: "quiet fs fs"
  by (simp add: quiet_def)

lemma quiet_Nil [simp]: "quiet fs []"
  by (simp add: quiet_def)

lemma quiet_top:
  "(state e' = CAUGHT \<longrightarrow> state e = CAUGHT) \<Longrightarrow> (state e = PENDING \<longrightarrow> state e' = PENDING) \<Longrightarrow>
   quiet (e # es) (e' # es)"
  by (auto simp: quiet_def nth_append)

lemma quiet_push: "state e \<noteq> CAUGHT \<Longrightarrow> quiet fs (e # fs)"
  by (auto simp: quiet_def nth_append)

lemma quiet_pop [simp]: "quiet (e # es) es"
  by (auto simp: quiet_def nth_append)

lemma quiet_pop_top:
  "(state e' = CAUGHT \<longrightarrow> state e = CAUGHT) \<Longrightarrow> (state e = PENDING \<longrightarrow> state e' = PENDING) \<Longrightarrow>
   quiet (ex # e # es) (e' # es)"
  by (auto simp: quiet_def nth_append)

lemma thrown_quiet: "thrown e e' a d \<Longrightarrow> quiet (e # es) (e' # es)"
  by (rule quiet_top) (simp_all add: thrown_def)

lemma top_frame_frames:
  "top_frame cfg w = (case frames cfg w of [] \<Rightarrow> None | e # es \<Rightarrow> Some e)"
  by (simp add: top_frame_def frames_def split: option.splits list.splits)

lemma update_top_Some:
  "update_top cfg g w = Some w' \<Longrightarrow>
   \<exists>e es. frames cfg w = e # es \<and> frames cfg w' = g e # es \<and> classes w' = classes w"
  by (auto simp: update_top_def frames_def split: option.splits list.splits)

lemma update_top_None: "update_top cfg g w = None \<Longrightarrow> frames cfg w = []"
  by (auto simp: update_top_def frames_def split: option.splits list.splits)

lemma update_top_frames:
  assumes "frames cfg w = e # es"
  shows "\<exists>w'. update_top cfg g w = Some w' \<and> frames cfg w' = g e # es"
proof -
  from assms obtain c where c: "current_context cfg w = Some c" "exStack c = Some (e # es)"
    by (auto simp: frames_Cons)
  then have "update_top cfg g w = Some (store_context cfg (c\<lparr>exStack := Some (g e # es)\<rparr>) w)"
    by (simp add: update_top_def)
  moreover have "frames cfg (store_context cfg (c\<lparr>exStack := Some (g e # es)\<rparr>) w) = g e # es"
    using c(1) by (simp add: frames_store)
  ultimately show ?thesis by simp
qed

lemma ExceptCatch_effect:
  assumes "ExceptCatch cfg pC cl w = (out, w')"
  shows "(w' = w \<and> (out = Faults \<or> out = Diverges) \<and>
          \<not> (\<exists>e es k. frames cfg w = e # es \<and> exn_class e = Some k \<and>
                 ExceptIsDerived (classes w) k cl = Some True)) \<or>
         (\<exists>e es. frames cfg w = e # es \<and>
            ((out = Returns True \<and> frames cfg w' = e\<lparr>state := CAUGHT\<rparr> # es \<and> state e = PENDING \<and>
              classes w' = classes w \<and>
              (\<exists>k. exn_class e = Some k \<and> ExceptIsDerived (classes w) k cl = Some True)) \<or>
             (w' = w \<and> out = Returns (state e = CAUGHT) \<and>
              \<not> (state e = PENDING \<and>
                 (\<exists>k. exn_class e = Some k \<and> ExceptIsDerived (classes w) k cl = Some True)))))"
  using assms
  by (auto simp: ExceptCatch_def frames_def Let_def ExceptGetContext_current
      split: if_splits option.splits list.splits)

lemma ExceptGetScope_effect:
  "ExceptGetScope cfg pC w = Faults \<or>
   ExceptGetScope cfg pC w = Returns (case frames cfg w of [] \<Rightarrow> OUTSIDE | e # es \<Rightarrow> scope e)"
  by (auto simp: ExceptGetScope_def frames_def ExceptGetContext_def current_context_def
      HashLookup_def Let_def split: option.splits list.splits if_splits)

lemma ExceptReturn_effect:
  assumes "ExceptReturn cfg pC w = (out, w')"
  shows "(w' = w \<and> out = Faults) \<or>
         (\<exists>e es. frames cfg w = e # es \<and>
            frames cfg w' = e\<lparr>exn_class := Some ReturnEvent, state := PENDING\<rparr> # es \<and>
            out = LongJmps (finalBuf e))"
  using assms
  by (auto simp: ExceptReturn_def frames_def Let_def split: if_splits option.splits list.splits)


lemma signal_fields [simp]:
  "pContextHash (snd (signal n h w)) = pContextHash w"
  "defaultContext (snd (signal n h w)) = defaultContext w"
  "classes (snd (signal n h w)) = classes w"
  by (simp_all add: signal_def)

lemma ExceptInstallHandlers_effect:
  assumes "ExceptInstallHandlers cfg c w = (stored, c1, w3)"
  shows "exStack c1 = Some (case exStack c of None \<Rightarrow> [] | Some st \<Rightarrow> st) \<and>
         pContextHash w3 = pContextHash w \<and> defaultContext w3 = defaultContext w \<and>
         classes w3 = classes w"
proof (cases "exStack c")
  case (Some st)
  with assms show ?thesis by (simp add: ExceptInstallHandlers_def)
next
  case None
  show ?thesis
  proof (cases "SIGBUS cfg")
    case nb: None
    show ?thesis
    proof (cases "MULTI_THREADING cfg \<and> SHARE_HANDLERS cfg")
      case True
      with assms None nb show ?thesis
        by (cases "numThreadsTry w = 0")
           (auto simp: ExceptInstallHandlers_def Let_def case_prod_beta signal_def)
    next
      case False
      with assms None nb show ?thesis
        by (auto simp: ExceptInstallHandlers_def Let_def case_prod_beta signal_def)
    qed
  next
    case sb: (Some b)
    show ?thesis
    proof (cases "MULTI_THREADING cfg \<and> SHARE_HANDLERS cfg")
      case True
      with assms None sb show ?thesis
        by (cases "numThreadsTry w = 0")
           (auto simp: ExceptInstallHandlers_def Let_def case_prod_beta signal_def)
    next
      case False
      with assms None sb show ?thesis
        by (auto simp: ExceptInstallHandlers_def Let_def case_prod_beta signal_def)
    qed
  qed
qed

lemma frames_eq:
  "pContextHash w' = pContextHash w \<Longrightarrow> defaultContext w' = defaultContext w \<Longrightarrow>
   frames cfg w' = frames cfg w"
  by (simp add: frames_def current_context_def)

lemma current_eq:
  "pContextHash w' = pContextHash w \<Longrightarrow> defaultContext w' = defaultContext w \<Longrightarrow>
   current_context cfg w' = current_context cfg w"
  by (simp add: current_context_def)

lemma ExceptTry_effect:
  assumes "ExceptTry cfg pC f l w = (out, w')"
  shows "(out = Faults \<and> frames cfg w' = frames cfg w) \<or>
         (out = Returns () \<and> classes w' = classes w \<and>
          frames cfg w' =
            calloc_Except\<lparr>first := \<not> pC, tryFile := Some f, tryLine := l\<rparr> # frames cfg w)"
proof -
  define w1 where "w1 = (if MULTI_THREADING cfg \<and> pContextHash w = None
                then w\<lparr>pContextHash := Some Map.empty\<rparr> else w)"
  define pC1 where "pC1 = (if \<not> pC then ExceptGetContext cfg False w1 else pC)"
  define r where "r = (if \<not> pC1 then ExceptCreateContext cfg w1 else (pC1, w1))"
  define pC2 where "pC2 = fst r"
  define w2 where "w2 = snd r"
  have f1: "frames cfg w1 = frames cfg w"
    by (auto simp: w1_def frames_def current_context_def HashLookup_def)
  have c1: "classes w1 = classes w" by (simp add: w1_def)
  have f2: "frames cfg w2 = frames cfg w1"
  proof (cases pC1)
    case True
    then show ?thesis by (simp add: w2_def r_def)
  next
    case False
    then have "frames cfg w1 = []"
      by (auto simp: pC1_def frames_def ExceptGetContext_def current_context_def HashLookup_def
          split: option.splits if_splits)
    moreover from False have "MULTI_THREADING cfg"
      by (auto simp: pC1_def ExceptGetContext_def split: if_splits)
    with False have "frames cfg w2 = []"
      by (auto simp: w2_def r_def ExceptCreateContext_def frames_def current_context_def
          HashLookup_def zero_Context_def split: option.splits)
    ultimately show ?thesis by simp
  qed
  have c2: "classes w2 = classes w1"
    by (simp add: w2_def r_def ExceptCreateContext_def)
  have unfold: "ExceptTry cfg pC f l w =
      (if \<not> pC2 then (Faults, w2)
       else (case current_context cfg w2 of
              None \<Rightarrow> (Faults, w2)
            | Some c \<Rightarrow>
                (let (stored, c1, w3) = ExceptInstallHandlers cfg c w2;
                     e = calloc_Except\<lparr>first := \<not> pC, tryFile := Some f, tryLine := l\<rparr>
                 in case exStack c1 of
                      None \<Rightarrow> (Faults, w3)
                    | Some st \<Rightarrow> (Returns (), store_context cfg (c1\<lparr>exStack := Some (e # st)\<rparr>) w3))))"
    unfolding ExceptTry_def w1_def pC1_def r_def pC2_def w2_def Let_def case_prod_beta
    by (rule refl)
  show ?thesis
  proof (cases "pC2 \<and> current_context cfg w2 \<noteq> None")
    case False
    with assms unfold have "out = Faults \<and> w' = w2"
      by (auto split: if_splits option.splits)
    with f1 f2 show ?thesis by simp
  next
    case True
    then obtain c where c: "current_context cfg w2 = Some c" by auto
    obtain stored c1 w3 where i: "ExceptInstallHandlers cfg c w2 = (stored, c1, w3)"
      by (cases "ExceptInstallHandlers cfg c w2") auto
    note ie = ExceptInstallHandlers_effect [OF i]
    have st: "exStack c1 = Some (frames cfg w2)"
      using ie c by (simp add: frames_def)
    have cur3: "current_context cfg w3 = Some c"
      using ie c current_eq [of w3 w2 cfg] by simp
    from assms unfold True c i st
    have "out = Returns () \<and>
          w' = store_context cfg
                 (c1\<lparr>exStack := Some (calloc_Except\<lparr>first := \<not> pC, tryFile := Some f, tryLine := l\<rparr>
                                       # frames cfg w2)\<rparr>) w3"
      by (simp add: Let_def)
    with cur3 f1 f2 c1 c2 ie show ?thesis by (simp add: frames_store)
  qed
qed

lemma try_macro_effect:
  assumes "try_macro cfg pC f l n w = (out, w')"
  shows "(out = Faults \<and> frames cfg w' = frames cfg w) \<or>
         (out = Returns () \<and> classes w' = classes w \<and>
          frames cfg w' =
            calloc_Except\<lparr>first := \<not> pC, tryFile := Some f, tryLine := l,
                          finalBuf := SetByFinally n, ready := 1, throwBuf := SetByTry n,
                          scope := TRY\<rparr> # frames cfg w)"
proof -
  obtain o1 w1 where t: "ExceptTry cfg pC f l w = (o1, w1)"
    by (cases "ExceptTry cfg pC f l w") auto
  from ExceptTry_effect [OF t] show ?thesis
  proof
    assume "o1 = Faults \<and> frames cfg w1 = frames cfg w"
    with assms t show ?thesis by (simp add: try_macro_def)
  next
    assume a: "o1 = Returns () \<and> classes w1 = classes w \<and>
          frames cfg w1 =
            calloc_Except\<lparr>first := \<not> pC, tryFile := Some f, tryLine := l\<rparr> # frames cfg w"
    let ?g = "\<lambda>e. e\<lparr>finalBuf := SetByFinally n, ready := 1, throwBuf := SetByTry n, scope := TRY\<rparr>"
    from a obtain w2 where u: "update_top cfg ?g w1 = Some w2"
      and f: "frames cfg w2 = ?g (calloc_Except\<lparr>first := \<not> pC, tryFile := Some f, tryLine := l\<rparr>)
                               # frames cfg w"
      using update_top_frames [of cfg w1 _ "frames cfg w" ?g] by auto
    from update_top_Some [OF u] have "classes w2 = classes w1" by auto
    with assms t a u f show ?thesis by (simp add: try_macro_def)
  qed
qed


lemma resolve_pC:
  "current_context cfg w \<noteq> None \<Longrightarrow> (if \<not> pC then ExceptGetContext cfg False w else pC)"
  by (cases pC) (auto simp: ExceptGetContext_current)

lemma frames_destroy [simp]: "frames cfg (destroy_context cfg w) = []"
  by (auto simp: frames_def destroy_context_def current_context_def HashLookup_def
      split: option.splits)

lemma destroyed_frames: "context_destroyed cfg w \<Longrightarrow> frames cfg w = []"
  by (auto simp: context_destroyed_def frames_def current_context_def
      split: option.splits if_splits)

lemma AssertAction_outside:
  assumes "frames cfg w = []" and "AssertAction cfg pC doAbort expr f l w = (out, w')"
  shows "frames cfg w' = [] \<and> (\<forall>b. out \<noteq> LongJmps b)"
proof -
  from ExceptGetScope_effect [of cfg pC w] assms(1)
  have "ExceptGetScope cfg pC w = Faults \<or> ExceptGetScope cfg pC w = Returns OUTSIDE"
    by simp
  with assms show ?thesis
    by (auto simp: AssertAction_def Let_def split: Data.splits option.splits if_splits)
qed

lemma default_action_effect:
  assumes "frames cfg w = []" and "default_action cfg ex restored w = (out, w')"
  shows "frames cfg w' = [] \<and>
         (\<forall>b. out = LongJmps b \<longrightarrow> exn_class ex = Some ReturnEvent \<and> pData ex = ReturnBuf b)"
proof (cases "exn_class ex")
  case None
  with assms show ?thesis by (simp add: default_action_def)
next
  case (Some k)
  show ?thesis
  proof (cases "k = FailedAssertion")
    case True
    obtain o1 w1 where a: "AssertAction cfg True (DO_ABORT cfg) (pData ex) (exn_file ex) (line ex) w
                            = (o1, w1)"
      by (cases "AssertAction cfg True (DO_ABORT cfg) (pData ex) (exn_file ex) (line ex) w") auto
    from AssertAction_outside [OF assms(1) a] assms(2) Some True a show ?thesis
      by (cases o1) (auto simp: default_action_def)
  next
    case False
    show ?thesis
    proof (cases "ExceptIsDerived (classes w) k RuntimeException = Some True \<and> restored")
      case True
      let ?r = "raise cfg (signalNumber (classes w k)) (destroy_context cfg w)"
      obtain o1 w1 where r: "?r = (o1, w1)" by (cases ?r) auto
      from raise_destroyed [OF destroyed_destroy r]
      have d: "context_destroyed cfg w1" "\<forall>b. o1 \<noteq> LongJmps b" by simp_all
      have "default_action cfg ex restored w =
              (case ?r of (Returns u, w') \<Rightarrow> (Faults, w')
               | (out, w') \<Rightarrow> (map_Outcome (\<lambda>_. 0) out, w'))"
        using Some False True by (simp add: default_action_def)
      with assms(2) r
      have "(case o1 of Returns u \<Rightarrow> (Faults, w1) | _ \<Rightarrow> (map_Outcome (\<lambda>_. 0) o1, w1)) = (out, w')"
        by (cases o1) simp_all
      with d(2) have "w' = w1" and "\<forall>b. out \<noteq> LongJmps b"
        by (cases o1; auto)+
      with d(1) show ?thesis by (simp add: destroyed_frames)
    next
      case no_raise: False
      have "default_action cfg ex restored w =
              (case ExceptIsDerived (classes w) k RuntimeException of
                 None \<Rightarrow> (Diverges, w)
               | Some d \<Rightarrow>
                   if k = ReturnEvent then
                     (case pData ex of
                        ReturnBuf b \<Rightarrow> (LongJmps b, destroy_context cfg w)
                      | _ \<Rightarrow> (Faults, destroy_context cfg w))
                   else
                     (case exn_file ex of
                        None \<Rightarrow> (Faults, w)
                      | Some fn \<Rightarrow>
                          (Returns 0,
                           destroy_context cfg
                             (fprintf_stderr (lost_line (name (classes w k)) fn (line ex)) w))))"
        using Some False no_raise
        by (auto simp: default_action_def split: option.splits)
      with assms Some show ?thesis
        by (auto split: option.splits if_splits Data.splits)
    qed
  qed
qed

lemma ExceptFinally_effect:
  assumes "ExceptFinally cfg pC w = (out, w')"
  shows "(out = Faults \<and> frames cfg w' = frames cfg w) \<or>
         (\<exists>ex rest. frames cfg w = ex # rest \<and>
            ((rest = [] \<and> frames cfg w' = [] \<and>
              (\<forall>b. out = LongJmps b \<longrightarrow> exn_class ex = Some ReturnEvent \<and> pData ex = ReturnBuf b)) \<or>
             (rest \<noteq> [] \<and> frames cfg w' = rest \<and>
              (out = Returns 0 \<or> out = Faults \<or>
               (\<exists>b. out = LongJmps b \<and> exn_class ex = Some ReturnEvent \<and> pData ex = ReturnBuf b))) \<or>
             (\<exists>e' es e'' k. rest = e' # es \<and> frames cfg w' = e'' # es \<and> exn_class ex = Some k \<and>
                 thrown e' e'' (ClassArg k) (pData ex) \<and>
                 out = map_Outcome (\<lambda>_. 0) (throw_jump e'))))"
proof (cases "frames cfg w")
  case Nil
  with assms have "out = Faults \<and> w' = w"
    by (auto simp: ExceptFinally_def frames_def Let_def split: option.splits list.splits if_splits)
  then show ?thesis by simp
next
  case (Cons ex rest)
  then obtain c where c: "current_context cfg w = Some c" "exStack c = Some (ex # rest)"
    by (auto simp: frames_Cons)
  let ?c1 = "c\<lparr>exStack := Some rest\<rparr>"
  let ?w1 = "store_context cfg ?c1 w"
  have cur1: "current_context cfg ?w1 = Some ?c1" using c(1) by simp
  have fr1: "frames cfg ?w1 = rest" using c(1) by (simp add: frames_store)
  show ?thesis
  proof (cases "rest = []")
    case True
    obtain restored w2 where r: "ExceptRestoreHandlers cfg ?c1 ?w1 = (restored, w2)"
      by (cases "ExceptRestoreHandlers cfg ?c1 ?w1") auto
    have fr2: "frames cfg w2 = []"
      using ExceptRestoreHandlers_current [OF r] fr1 True by (simp add: frames_def)
    have fin: "ExceptFinally cfg pC w =
               (if state ex = PENDING then default_action cfg ex restored w2
                else (Returns 0, destroy_context cfg w2))"
      using c r True by (simp add: ExceptFinally_def ExceptGetContext_current Let_def)
    show ?thesis
    proof (cases "state ex = PENDING")
      case True
      with fin assms have "default_action cfg ex restored w2 = (out, w')" by simp
      from default_action_effect [OF fr2 this] Cons \<open>rest = []\<close> show ?thesis by simp
    next
      case False
      with fin assms Cons \<open>rest = []\<close> show ?thesis by auto
    qed
  next
    case False
    then obtain e' es where rest: "rest = e' # es" by (cases rest) auto
    show ?thesis
    proof (cases "state ex = PENDING")
      case np: False
      from c False np assms have "out = Returns 0 \<and> w' = ?w1"
        by (simp add: ExceptFinally_def ExceptGetContext_current Let_def split: if_splits)
      with fr1 Cons False show ?thesis by simp
    next
      case True
      show ?thesis
      proof (cases "exn_class ex = Some ReturnEvent \<and> first ex")
        case re: True
        from c False True re assms
        have "w' = ?w1 \<and> (out = Faults \<or> (\<exists>b. out = LongJmps b \<and> pData ex = ReturnBuf b))"
          by (auto simp: ExceptFinally_def ExceptGetContext_current Let_def
              split: Data.splits if_splits)
        with fr1 Cons False re show ?thesis by auto
      next
        case nre: False
        show ?thesis
        proof (cases "exn_class ex")
          case None
          from c False True cur1 nre None assms have "out = Faults \<and> w' = ?w1"
            by (simp add: ExceptFinally_def ExceptThrow_def arg_notRethrown_def
                ExceptGetContext_current Let_def rest split: if_splits)
          with fr1 Cons False show ?thesis by simp
        next
          case (Some k)
          obtain o2 w2 where t: "ExceptThrow cfg True (ClassArg k) (pData ex) (exn_file ex) (line ex) ?w1
                                  = (o2, w2)"
            by (cases "ExceptThrow cfg True (ClassArg k) (pData ex) (exn_file ex) (line ex) ?w1") auto
          from c False True nre Some t assms have res: "out = map_Outcome (\<lambda>_. 0) o2 \<and> w' = w2"
            by (auto simp: ExceptFinally_def ExceptGetContext_current Let_def split: if_splits)
          from ExceptThrow_effect [OF t] fr1 rest
          have "(frames cfg w2 = rest \<and> o2 = Faults) \<or>
                (\<exists>e''. frames cfg w2 = e'' # es \<and> thrown e' e'' (ClassArg k) (pData ex) \<and>
                       o2 = throw_jump e')"
            by auto
          then show ?thesis
          proof
            assume "frames cfg w2 = rest \<and> o2 = Faults"
            with res Cons False show ?thesis by simp
          next
            assume "\<exists>e''. frames cfg w2 = e'' # es \<and> thrown e' e'' (ClassArg k) (pData ex) \<and>
                          o2 = throw_jump e'"
            with Some res Cons rest show ?thesis by auto
          qed
        qed
      qed
    qed
  qed
qed


lemma ExceptGetContext_frames:
  "frames cfg w = e # es \<Longrightarrow> ExceptGetContext cfg pC w"
  by (auto simp: frames_Cons ExceptGetContext_current)

lemma catch_macro_effect:
  assumes "catch_macro cfg cl w = (out, w')"
  shows "(w' = w \<and> (out = Faults \<or> out = Diverges) \<and>
          \<not> (\<exists>e es k. frames cfg w = e # es \<and> exn_class e = Some k \<and>
                 ExceptIsDerived (classes w) k cl = Some True)) \<or>
         (\<exists>e es. frames cfg w = e # es \<and>
            ((out = Returns True \<and> frames cfg w' = e\<lparr>state := CAUGHT, scope := CATCH\<rparr> # es \<and>
              state e = PENDING \<and>
              (\<exists>k. exn_class e = Some k \<and> ExceptIsDerived (classes w) k cl = Some True)) \<or>
             (out = Returns True \<and> frames cfg w' = e\<lparr>scope := CATCH\<rparr> # es \<and> state e = CAUGHT) \<or>
             (out = Returns False \<and> w' = w \<and> state e \<noteq> CAUGHT \<and>
              \<not> (state e = PENDING \<and>
                 (\<exists>k. exn_class e = Some k \<and> ExceptIsDerived (classes w) k cl = Some True)))))"
proof -
  obtain o1 w1 where c: "ExceptCatch cfg True cl w = (o1, w1)"
    by (cases "ExceptCatch cfg True cl w") auto
  from ExceptCatch_effect [OF c] show ?thesis
  proof (elim disjE exE conjE)
    assume "w1 = w" "o1 = Faults"
      "\<not> (\<exists>e es k. frames cfg w = e # es \<and> exn_class e = Some k \<and>
             ExceptIsDerived (classes w) k cl = Some True)"
    with assms c show ?thesis by (simp add: catch_macro_def)
  next
    assume "w1 = w" "o1 = Diverges"
      "\<not> (\<exists>e es k. frames cfg w = e # es \<and> exn_class e = Some k \<and>
             ExceptIsDerived (classes w) k cl = Some True)"
    with assms c show ?thesis by (simp add: catch_macro_def)
  next
    fix e es k
    assume a: "frames cfg w = e # es" "o1 = Returns True" "frames cfg w1 = e\<lparr>state := CAUGHT\<rparr> # es"
      "state e = PENDING" "exn_class e = Some k" "ExceptIsDerived (classes w) k cl = Some True"
    from update_top_frames [OF a(3), of "\<lambda>e. e\<lparr>scope := CATCH\<rparr>"]
    obtain w2 where "update_top cfg (\<lambda>e. e\<lparr>scope := CATCH\<rparr>) w1 = Some w2"
      "frames cfg w2 = e\<lparr>state := CAUGHT, scope := CATCH\<rparr> # es" by auto
    with assms c a show ?thesis by (auto simp: catch_macro_def)
  next
    fix e es
    assume a: "frames cfg w = e # es" "w1 = w" "o1 = Returns (state e = CAUGHT)"
      "\<not> (state e = PENDING \<and> (\<exists>k. exn_class e = Some k \<and>
            ExceptIsDerived (classes w) k cl = Some True))"
    show ?thesis
    proof (cases "state e = CAUGHT")
      case True
      from update_top_frames [OF a(1), of "\<lambda>e. e\<lparr>scope := CATCH\<rparr>"]
      obtain w2 where "update_top cfg (\<lambda>e. e\<lparr>scope := CATCH\<rparr>) w = Some w2"
        "frames cfg w2 = e\<lparr>scope := CATCH\<rparr> # es" by auto
      with assms c a True show ?thesis by (auto simp: catch_macro_def)
    next
      case False
      with assms c a show ?thesis by (auto simp: catch_macro_def)
    qed
  qed
qed

lemma finally_macro_effect:
  assumes "finally_macro cfg pC w = (out, w')"
  shows "(out = Faults \<and> w' = w \<and> frames cfg w = []) \<or>
         (\<exists>e es. frames cfg w = e # es \<and>
            ((out = Returns True \<and> frames cfg w' = e\<lparr>scope := FINALLY, ready := ready e - 1\<rparr> # es) \<or>
             (out = Returns False \<and> frames cfg w' = e\<lparr>scope := FINALLY\<rparr> # es)))"
proof (cases "frames cfg w")
  case Nil
  then have "update_top cfg (\<lambda>e. e\<lparr>scope := FINALLY\<rparr>) w = None"
    by (auto simp: update_top_def frames_def split: option.splits list.splits)
  with assms Nil show ?thesis by (simp add: finally_macro_def split: if_splits)
next
  case (Cons e es)
  from update_top_frames [OF Cons, of "\<lambda>e. e\<lparr>scope := FINALLY\<rparr>"]
  obtain w1 where w1: "update_top cfg (\<lambda>e. e\<lparr>scope := FINALLY\<rparr>) w = Some w1"
    "frames cfg w1 = e\<lparr>scope := FINALLY\<rparr> # es" by auto
  from update_top_frames [OF w1(2), of "\<lambda>e. e\<lparr>ready := ready e - 1\<rparr>"]
  obtain w2 where w2: "update_top cfg (\<lambda>e. e\<lparr>ready := ready e - 1\<rparr>) w1 = Some w2"
    "frames cfg w2 = e\<lparr>scope := FINALLY, ready := ready e - 1\<rparr> # es" by auto
  have t: "top_frame cfg w1 = Some (e\<lparr>scope := FINALLY\<rparr>)"
    using w1(2) by (simp add: top_frame_frames)
  have "finally_macro cfg pC w =
          (if ready e > 0 then (Returns True, w2) else (Returns False, w1))"
    using ExceptGetContext_frames [OF Cons] w1 w2 t by (simp add: finally_macro_def)
  with assms Cons w1 w2 show ?thesis by (auto split: if_splits)
qed

lemma finally_block_end_effect:
  assumes "finally_block_end cfg pC w = (out, w')"
  shows "(out = Faults \<and> w' = w \<and> frames cfg w = []) \<or>
         (\<exists>e es. frames cfg w = e # es \<and> out = Returns () \<and>
                  frames cfg w' = e\<lparr>ready := ready e - 1\<rparr> # es)"
proof (cases "frames cfg w")
  case Nil
  then have "update_top cfg (\<lambda>e. e\<lparr>ready := ready e - 1\<rparr>) w = None"
    by (auto simp: update_top_def frames_def split: option.splits list.splits)
  with assms Nil show ?thesis by (simp add: finally_block_end_def split: if_splits)
next
  case (Cons e es)
  from update_top_frames [OF Cons, of "\<lambda>e. e\<lparr>ready := ready e - 1\<rparr>"]
  obtain w1 where w1: "update_top cfg (\<lambda>e. e\<lparr>ready := ready e - 1\<rparr>) w = Some w1"
    "frames cfg w1 = e\<lparr>ready := ready e - 1\<rparr> # es" by auto
  have "finally_block_end cfg pC w = (Returns (), w1)"
    using ExceptGetContext_frames [OF Cons] w1 by (simp add: finally_block_end_def)
  with assms Cons w1 show ?thesis by auto
qed

lemma ExceptReturn_frames:
  assumes "frames cfg w = e # es"
  shows "\<exists>w'. ExceptReturn cfg pC w = (LongJmps (finalBuf e), w') \<and>
              frames cfg w' = e\<lparr>exn_class := Some ReturnEvent, state := PENDING\<rparr> # es"
proof -
  from assms obtain c where c: "current_context cfg w = Some c" "exStack c = Some (e # es)"
    by (auto simp: frames_Cons)
  then have "ExceptReturn cfg pC w =
          (LongJmps (finalBuf e),
           store_context cfg
             (c\<lparr>exStack := Some (e\<lparr>exn_class := Some ReturnEvent, state := PENDING\<rparr> # es)\<rparr>) w)"
    by (cases pC) (simp_all add: ExceptReturn_def ExceptGetContext_current)
  with c(1) show ?thesis by (simp add: frames_store)
qed

lemma return_macro_effect:
  assumes "return_macro cfg pC n w = (out, w')"
  shows "(w' = w \<and> (out = Faults \<or> out = Returns ())) \<or>
         (\<exists>e es. frames cfg w = e # es \<and>
            frames cfg w' = e\<lparr>pData := ReturnBuf (SetByReturn n), exn_class := Some ReturnEvent,
                               state := PENDING\<rparr> # es \<and>
            out = LongJmps (finalBuf e))"
proof (cases "frames cfg w")
  case Nil
  with ExceptGetScope_effect [of cfg pC w] assms show ?thesis
    by (auto simp: return_macro_def)
next
  case (Cons e es)
  from update_top_frames [OF Cons, of "\<lambda>e. e\<lparr>pData := ReturnBuf (SetByReturn n)\<rparr>"]
  obtain w1 where w1: "update_top cfg (\<lambda>e. e\<lparr>pData := ReturnBuf (SetByReturn n)\<rparr>) w = Some w1"
    "frames cfg w1 = e\<lparr>pData := ReturnBuf (SetByReturn n)\<rparr> # es" by auto
  from ExceptReturn_frames [OF w1(2), of pC]
  obtain w2 where w2: "ExceptReturn cfg pC w1 = (LongJmps (finalBuf e), w2)"
    "frames cfg w2 = e\<lparr>pData := ReturnBuf (SetByReturn n), exn_class := Some ReturnEvent,
                        state := PENDING\<rparr> # es" by auto
  from ExceptGetScope_effect [of cfg pC w] Cons
  have "ExceptGetScope cfg pC w = Faults \<or> ExceptGetScope cfg pC w = Returns (scope e)" by simp
  then show ?thesis
  proof
    assume "ExceptGetScope cfg pC w = Faults"
    with assms show ?thesis by (simp add: return_macro_def)
  next
    assume "ExceptGetScope cfg pC w = Returns (scope e)"
    with assms ExceptGetContext_frames [OF Cons, of pC] w1 w2 Cons show ?thesis
      by (auto simp: return_macro_def split: if_splits)
  qed
qed

lemma ExceptThrowSignal_effect:
  assumes "ExceptThrowSignal cfg number w = (out, w')"
  shows "(frames cfg w' = frames cfg w \<and> out = Faults) \<or>
         (frames cfg w = [] \<and> frames cfg w' = [] \<and> out = Returns ()) \<or>
         (\<exists>e es e' k. frames cfg w = e # es \<and> frames cfg w' = e' # es \<and> k \<noteq> ReturnEvent \<and>
                     thrown e e' (ClassArg k) NULL \<and> out = throw_jump e)"
proof (cases "signal_class cfg number")
  case None
  with assms have "out = Faults \<and> w' = snd (signal number ExceptThrowSignal_addr w)"
    by (simp add: ExceptThrowSignal_def Let_def)
  moreover have "frames cfg (snd (signal number ExceptThrowSignal_addr w)) = frames cfg w"
    by (rule frames_eq) simp_all
  ultimately show ?thesis by simp
next
  case (Some k)
  let ?w1 = "snd (signal number ExceptThrowSignal_addr w)"
  let ?w2 = "?w1\<lparr>classes := (classes ?w1)(k := (classes ?w1 k)\<lparr>signalNumber := number\<rparr>)\<rparr>"
  have f: "frames cfg ?w2 = frames cfg w" by (rule frames_eq) simp_all
  from Some have k: "k \<noteq> ReturnEvent"
    by (auto simp: signal_class_def class_refs split: if_splits)
  from assms Some have "ExceptThrow cfg False (ClassArg k) NULL (Some ''?'') 0 ?w2 = (out, w')"
    by (simp add: ExceptThrowSignal_def Let_def)
  from ExceptThrow_effect [OF this] f k show ?thesis by auto
qed

lemma AssertAction_effect:
  assumes "AssertAction cfg pC doAbort expr f l w = (out, w')"
  shows "(frames cfg w' = frames cfg w \<and> (out = Faults \<or> out = Aborts)) \<or>
         (frames cfg w' = frames cfg w \<and> out = Returns () \<and>
          (case frames cfg w of [] \<Rightarrow> True
           | e # es \<Rightarrow> scope e \<noteq> TRY \<and> scope e \<noteq> CATCH \<and> scope e \<noteq> FINALLY)) \<or>
         (\<exists>e es e'. frames cfg w = e # es \<and> frames cfg w' = e' # es \<and>
                     thrown e e' (ClassArg FailedAssertion) expr \<and> out = throw_jump e)"
proof -
  let ?sc = "case frames cfg w of [] \<Rightarrow> OUTSIDE | e # es \<Rightarrow> scope e"
  from ExceptGetScope_effect [of cfg pC w]
  show ?thesis
  proof
    assume "ExceptGetScope cfg pC w = Faults"
    with assms show ?thesis by (simp add: AssertAction_def)
  next
    assume s: "ExceptGetScope cfg pC w = Returns ?sc"
    show ?thesis
    proof (cases "?sc = TRY \<or> ?sc = CATCH \<or> ?sc = FINALLY")
      case True
      then obtain e es where fr: "frames cfg w = e # es" by (cases "frames cfg w") auto
      from assms s True
      have "ExceptThrow cfg (if \<not> pC then ExceptGetContext cfg False w else pC)
              (ClassArg FailedAssertion) expr f l w = (out, w')"
        by (simp add: AssertAction_def Let_def)
      from ExceptThrow_effect [OF this] fr show ?thesis by auto
    next
      case False
      with assms s show ?thesis
        by (cases "frames cfg w")
           (auto simp: AssertAction_def Let_def split: Data.splits option.splits if_splits)
    qed
  qed
qed


lemma inv_Running:
  "control m = Running \<Longrightarrow> invariant cfg m = list_all in_block (frames cfg (world m))"
  by (simp add: invariant_def)

lemma inv_Catching:
  "control m = Catching \<Longrightarrow>
   invariant cfg m =
     (\<exists>e es. frames cfg (world m) = e # es \<and> sound e \<and> scope e = TRY \<and> state e = PENDING \<and>
              list_all in_block es)"
  by (auto simp: invariant_def split: list.splits)

lemma inv_AtFinally:
  "control m = AtFinally \<Longrightarrow>
   invariant cfg m =
     (\<exists>e es. frames cfg (world m) = e # es \<and> sound e \<and>
              ((scope e = TRY \<and> state e \<noteq> CAUGHT) \<or> scope e = CATCH \<or> scope e = FINALLY) \<and>
              list_all in_block es)"
  by (auto simp: invariant_def split: list.splits)

lemma inv_Resolving:
  "control m = Resolving \<Longrightarrow>
   invariant cfg m =
     (\<exists>e es. frames cfg (world m) = e # es \<and> sound e \<and> scope e = FINALLY \<and> list_all in_block es)"
  by (auto simp: invariant_def split: list.splits)

lemma inv_Stopped: "control m = Stopped \<Longrightarrow> invariant cfg m"
  by (simp add: invariant_def)

lemma sound_thrown:
  "sound e \<Longrightarrow> thrown e e' a d \<Longrightarrow>
   (\<forall>k. a = ClassArg k \<longrightarrow> k = ReturnEvent \<longrightarrow> (\<exists>n. d = ReturnBuf (SetByReturn n))) \<Longrightarrow> sound e'"
  by (auto simp: sound_def thrown_def)

lemma continue_throw_jump:
  "sound e \<Longrightarrow>
   continue dflt (throw_jump e) =
     (case scope e of TRY \<Rightarrow> Catching | CATCH \<Rightarrow> AtFinally | FINALLY \<Rightarrow> AtFinally | _ \<Rightarrow> dflt)"
  by (auto simp: sound_def throw_jump_def continue_def split: Scope.splits JMP_BUF.splits)

lemma continue_map_throw_jump:
  "sound e \<Longrightarrow>
   continue dflt (map_Outcome g (throw_jump e)) =
     (case scope e of TRY \<Rightarrow> Catching | CATCH \<Rightarrow> AtFinally | FINALLY \<Rightarrow> AtFinally | _ \<Rightarrow> dflt)"
  by (auto simp: sound_def throw_jump_def continue_def split: Scope.splits JMP_BUF.splits)

lemma invariant_thrown:
  assumes "frames cfg w' = e' # es" and "thrown e e' a d" and "sound e" and "sound e'"
    and "list_all in_block es" and "scope e = TRY \<or> scope e = CATCH \<or> scope e = FINALLY"
    and "c = (case scope e of TRY \<Rightarrow> Catching | CATCH \<Rightarrow> AtFinally | FINALLY \<Rightarrow> AtFinally
              | _ \<Rightarrow> dflt)"
  shows "invariant cfg \<lparr>control = c, world = w'\<rparr>"
  using assms
  by (auto simp: inv_Catching inv_AtFinally thrown_def)

lemma in_block_scope: "in_block e \<Longrightarrow> scope e = TRY \<or> scope e = CATCH \<or> scope e = FINALLY"
  by (auto simp: in_block_def)

lemma in_block_sound: "in_block e \<Longrightarrow> sound e"
  by (simp add: in_block_def)

text \<open>What a throw into the top handle does to the machine.\<close>

lemma good_thrown:
  assumes inv: "list_all in_block (frames cfg w)"
    and fr: "frames cfg w = e # es" "frames cfg w' = e' # es"
    and th: "thrown e e' a d"
    and ok: "\<forall>k. a = ClassArg k \<longrightarrow> k = ReturnEvent \<longrightarrow> (\<exists>n. d = ReturnBuf (SetByReturn n))"
    and out: "out = throw_jump e \<or> out = map_Outcome g (throw_jump e)"
  shows "invariant cfg \<lparr>control = continue Running out, world = w'\<rparr> \<and>
         quiet (frames cfg w) (frames cfg w')"
proof -
  from inv fr have ib: "in_block e" "list_all in_block es" by simp_all
  note s = in_block_sound [OF ib(1)]
  note s' = sound_thrown [OF s th ok]
  from out s have c: "continue Running out =
      (case scope e of TRY \<Rightarrow> Catching | CATCH \<Rightarrow> AtFinally | FINALLY \<Rightarrow> AtFinally | _ \<Rightarrow> Running)"
    by (auto simp: continue_throw_jump continue_map_throw_jump)
  have "invariant cfg \<lparr>control = continue Running out, world = w'\<rparr>"
    by (rule invariant_thrown [OF fr(2) th s s' ib(2) in_block_scope [OF ib(1)] c])
  with fr th show ?thesis by (simp add: thrown_quiet)
qed

lemma not_matching [simp]:
  "\<not> matching_catch cfg (EvTry pC f l n) m"
  "\<not> matching_catch cfg (EvThrow pC a d f l) m"
  "\<not> matching_catch cfg (EvSignal number) m"
  "\<not> matching_catch cfg (EvAssert pC x f l) m"
  "\<not> matching_catch cfg (EvReturn pC n) m"
  "\<not> matching_catch cfg (EvBlockEnd pC) m"
  "\<not> matching_catch cfg EvNoCatch m"
  "\<not> matching_catch cfg (EvFinally pC) m"
  "\<not> matching_catch cfg (EvResolve pC) m"
  by (simp_all add: matching_catch_def)

lemma continue_simps [simp]:
  "continue dflt (Returns v) = dflt"
  "continue dflt Faults = Stopped"
  "continue dflt Aborts = Stopped"
  "continue dflt Diverges = Stopped"
  "continue dflt (Raises n) = Stopped"
  by (simp_all add: continue_def)

lemma step_throw:
  assumes inv: "invariant cfg m"
    and st: "step cfg (EvThrow pC a d f l) m = Some m'"
  shows "good cfg (EvThrow pC a d f l) m m'"
proof -
  from st have run: "control m = Running" and na: "a \<noteq> ClassArg ReturnEvent"
    and m': "m' = \<lparr>control = continue Running (fst (ExceptThrow cfg pC a d (Some f) l (world m))),
                   world = snd (ExceptThrow cfg pC a d (Some f) l (world m))\<rparr>"
    by (cases "control m"; auto simp: step_def after_def Let_def split: if_splits)+
  obtain out w' where r: "ExceptThrow cfg pC a d (Some f) l (world m) = (out, w')"
    by (cases "ExceptThrow cfg pC a d (Some f) l (world m)") auto
  from inv run have ib: "list_all in_block (frames cfg (world m))" by (simp add: inv_Running)
  from ExceptThrow_effect [OF r]
  have "invariant cfg \<lparr>control = continue Running out, world = w'\<rparr> \<and>
        quiet (frames cfg (world m)) (frames cfg w')"
  proof (elim disjE exE conjE)
    assume "frames cfg w' = frames cfg (world m)" "out = Faults"
    then show ?thesis by (simp add: inv_Stopped)
  next
    assume "frames cfg (world m) = []" "frames cfg w' = []" "out = Returns ()"
    then show ?thesis by (simp add: inv_Running)
  next
    fix e es e'
    assume "frames cfg (world m) = e # es" "frames cfg w' = e' # es" "thrown e e' a d"
      "out = throw_jump e"
    with ib na show ?thesis by (intro good_thrown) auto
  qed
  with m' r show ?thesis by (simp add: good_def)
qed


lemma step_try:
  assumes inv: "invariant cfg m"
    and st: "step cfg (EvTry pC f l n) m = Some m'"
  shows "good cfg (EvTry pC f l n) m m'"
proof -
  from st have run: "control m = Running"
    and m': "m' = \<lparr>control = continue Running (fst (try_macro cfg pC f l n (world m))),
                   world = snd (try_macro cfg pC f l n (world m))\<rparr>"
    by (cases "control m"; auto simp: step_def after_def Let_def)+
  obtain out w' where r: "try_macro cfg pC f l n (world m) = (out, w')"
    by (cases "try_macro cfg pC f l n (world m)") auto
  from inv run have ib: "list_all in_block (frames cfg (world m))" by (simp add: inv_Running)
  from try_macro_effect [OF r]
  have "invariant cfg \<lparr>control = continue Running out, world = w'\<rparr> \<and>
        quiet (frames cfg (world m)) (frames cfg w')"
  proof (elim disjE conjE)
    assume "out = Faults" "frames cfg w' = frames cfg (world m)"
    then show ?thesis by (simp add: inv_Stopped)
  next
    let ?e = "calloc_Except\<lparr>first := \<not> pC, tryFile := Some f, tryLine := l,
                          finalBuf := SetByFinally n, ready := 1, throwBuf := SetByTry n,
                          scope := TRY\<rparr>"
    assume a: "out = Returns ()" "frames cfg w' = ?e # frames cfg (world m)"
    have "in_block ?e" "state ?e \<noteq> CAUGHT"
      by (simp_all add: in_block_def sound_def calloc_Except_def)
    with a ib show ?thesis by (simp add: inv_Running quiet_push)
  qed
  with m' r show ?thesis by (simp add: good_def)
qed

lemma step_signal:
  assumes inv: "invariant cfg m"
    and st: "step cfg (EvSignal number) m = Some m'"
  shows "good cfg (EvSignal number) m m'"
proof -
  from st have run: "control m = Running"
    and m': "m' = \<lparr>control = continue Running (fst (ExceptThrowSignal cfg number (world m))),
                   world = snd (ExceptThrowSignal cfg number (world m))\<rparr>"
    by (cases "control m"; auto simp: step_def after_def Let_def)+
  obtain out w' where r: "ExceptThrowSignal cfg number (world m) = (out, w')"
    by (cases "ExceptThrowSignal cfg number (world m)") auto
  from inv run have ib: "list_all in_block (frames cfg (world m))" by (simp add: inv_Running)
  from ExceptThrowSignal_effect [OF r]
  have "invariant cfg \<lparr>control = continue Running out, world = w'\<rparr> \<and>
        quiet (frames cfg (world m)) (frames cfg w')"
  proof (elim disjE exE conjE)
    assume "frames cfg w' = frames cfg (world m)" "out = Faults"
    then show ?thesis by (simp add: inv_Stopped)
  next
    assume "frames cfg (world m) = []" "frames cfg w' = []" "out = Returns ()"
    then show ?thesis by (simp add: inv_Running)
  next
    fix e es e' k
    assume "frames cfg (world m) = e # es" "frames cfg w' = e' # es" "k \<noteq> ReturnEvent"
      "thrown e e' (ClassArg k) NULL" "out = throw_jump e"
    with ib show ?thesis by (intro good_thrown) auto
  qed
  with m' r show ?thesis by (simp add: good_def)
qed

lemma step_assert:
  assumes inv: "invariant cfg m"
    and st: "step cfg (EvAssert pC x f l) m = Some m'"
  shows "good cfg (EvAssert pC x f l) m m'"
proof -
  let ?r = "AssertAction cfg pC (DO_ABORT cfg) (String x) (Some f) l (world m)"
  from st have run: "control m = Running"
    and m': "m' = \<lparr>control = continue Running (fst ?r), world = snd ?r\<rparr>"
    by (cases "control m"; auto simp: step_def after_def Let_def)+
  obtain out w' where r: "?r = (out, w')" by (cases ?r) auto
  from inv run have ib: "list_all in_block (frames cfg (world m))" by (simp add: inv_Running)
  have nr: "FailedAssertion \<noteq> ReturnEvent" by (simp add: class_refs)
  from AssertAction_effect [OF r]
  have "invariant cfg \<lparr>control = continue Running out, world = w'\<rparr> \<and>
        quiet (frames cfg (world m)) (frames cfg w')"
  proof (elim disjE exE conjE)
    assume "frames cfg w' = frames cfg (world m)" "out = Faults"
    then show ?thesis by (simp add: inv_Stopped)
  next
    assume "frames cfg w' = frames cfg (world m)" "out = Aborts"
    then show ?thesis by (simp add: inv_Stopped)
  next
    assume "frames cfg w' = frames cfg (world m)" "out = Returns ()"
    with ib show ?thesis by (simp add: inv_Running)
  next
    fix e es e'
    assume "frames cfg (world m) = e # es" "frames cfg w' = e' # es"
      "thrown e e' (ClassArg FailedAssertion) (String x)" "out = throw_jump e"
    with ib nr show ?thesis by (intro good_thrown) auto
  qed
  with m' r show ?thesis by (simp add: good_def)
qed

lemma step_return:
  assumes inv: "invariant cfg m"
    and st: "step cfg (EvReturn pC n) m = Some m'"
  shows "good cfg (EvReturn pC n) m m'"
proof -
  let ?r = "return_macro cfg pC n (world m)"
  from st have run: "control m = Running"
    and m': "m' = \<lparr>control = continue Running (fst ?r), world = snd ?r\<rparr>"
    by (cases "control m"; auto simp: step_def after_def Let_def)+
  obtain out w' where r: "?r = (out, w')" by (cases ?r) auto
  from inv run have ib: "list_all in_block (frames cfg (world m))" by (simp add: inv_Running)
  from return_macro_effect [OF r]
  have "invariant cfg \<lparr>control = continue Running out, world = w'\<rparr> \<and>
        quiet (frames cfg (world m)) (frames cfg w')"
  proof (elim disjE exE conjE)
    assume "w' = world m" "out = Faults"
    then show ?thesis by (simp add: inv_Stopped)
  next
    assume "w' = world m" "out = Returns ()"
    with ib show ?thesis by (simp add: inv_Running)
  next
    fix e :: Except and es
    let ?e' = "e\<lparr>pData := ReturnBuf (SetByReturn n), exn_class := Some ReturnEvent,
                  state := PENDING\<rparr>"
    assume a: "frames cfg (world m) = e # es" "frames cfg w' = ?e' # es"
      "out = LongJmps (finalBuf e)"
    from ib a have e: "in_block e" "list_all in_block es" by simp_all
    then have s: "sound e" by (simp add: in_block_def)
    then have s': "sound ?e'" by (simp add: sound_def)
    from s have c: "continue Running out = AtFinally"
      using a(3) by (auto simp: sound_def continue_def split: JMP_BUF.splits)
    from e(1) have "scope e = TRY \<or> scope e = CATCH \<or> scope e = FINALLY"
      by (rule in_block_scope)
    with a s' e c show ?thesis
      by (auto simp: inv_AtFinally intro!: quiet_top)
  qed
  with m' r show ?thesis by (simp add: good_def)
qed

lemma step_block_end:
  assumes inv: "invariant cfg m"
    and st: "step cfg (EvBlockEnd pC) m = Some m'"
  shows "good cfg (EvBlockEnd pC) m m'"
proof -
  from st have run: "control m = Running"
    by (cases "control m"; auto simp: step_def after_def Let_def)
  from inv run have ib: "list_all in_block (frames cfg (world m))" by (simp add: inv_Running)
  from st run obtain e es where fr: "frames cfg (world m) = e # es"
    by (cases "frames cfg (world m)") (auto simp: step_def top_frame_frames Let_def)
  with ib have e: "in_block e" "list_all in_block es" by simp_all
  show ?thesis
  proof (cases "scope e = FINALLY")
    case False
    with st run fr have "m' = \<lparr>control = AtFinally, world = world m\<rparr>"
      by (simp add: step_def top_frame_frames Let_def)
    moreover from e False have "(scope e = TRY \<and> state e \<noteq> CAUGHT) \<or> scope e = CATCH"
      by (auto simp: in_block_def)
    ultimately show ?thesis using fr e by (auto simp: good_def inv_AtFinally in_block_def)
  next
    case True
    let ?r = "finally_block_end cfg pC (world m)"
    from st run fr True have m': "m' = \<lparr>control = continue Resolving (fst ?r), world = snd ?r\<rparr>"
      by (simp add: step_def top_frame_frames after_def Let_def)
    obtain out w' where r: "?r = (out, w')" by (cases ?r) auto
    from finally_block_end_effect [OF r] fr
    have "out = Returns ()" "frames cfg w' = e\<lparr>ready := ready e - 1\<rparr> # es" by auto
    moreover from e True have "sound (e\<lparr>ready := ready e - 1\<rparr>)"
      by (simp add: in_block_def sound_def)
    ultimately show ?thesis using m' r fr e True
      by (auto simp: good_def inv_Resolving intro!: quiet_top)
  qed
qed

lemma step_no_catch:
  assumes inv: "invariant cfg m"
    and st: "step cfg EvNoCatch m = Some m'"
  shows "good cfg EvNoCatch m m'"
proof -
  from st have c: "control m = Catching" and m': "m' = \<lparr>control = AtFinally, world = world m\<rparr>"
    by (cases "control m"; auto simp: step_def after_def Let_def)+
  with inv show ?thesis by (auto simp: good_def inv_Catching inv_AtFinally)
qed

lemma step_finally:
  assumes inv: "invariant cfg m"
    and st: "step cfg (EvFinally pC) m = Some m'"
  shows "good cfg (EvFinally pC) m m'"
proof -
  let ?r = "finally_macro cfg pC (world m)"
  from st have c: "control m = AtFinally"
    by (cases "control m"; auto simp: step_def after_def Let_def)
  obtain out w' where r: "?r = (out, w')" by (cases ?r) auto
  from inv c obtain e es where fr: "frames cfg (world m) = e # es" and s: "sound e"
    and es: "list_all in_block es"
    by (auto simp: inv_AtFinally)
  from finally_macro_effect [OF r] fr
  have "(out = Returns True \<and> frames cfg w' = e\<lparr>scope := FINALLY, ready := ready e - 1\<rparr> # es) \<or>
        (out = Returns False \<and> frames cfg w' = e\<lparr>scope := FINALLY\<rparr> # es)"
    by auto
  then show ?thesis
  proof (elim disjE conjE)
    assume a: "out = Returns True" "frames cfg w' = e\<lparr>scope := FINALLY, ready := ready e - 1\<rparr> # es"
    with st c r have "m' = \<lparr>control = Running, world = w'\<rparr>"
      by (simp add: step_def Let_def)
    moreover from s have "in_block (e\<lparr>scope := FINALLY, ready := ready e - 1\<rparr>)"
      by (simp add: in_block_def sound_def)
    ultimately show ?thesis using a fr es
      by (auto simp: good_def inv_Running intro!: quiet_top)
  next
    assume a: "out = Returns False" "frames cfg w' = e\<lparr>scope := FINALLY\<rparr> # es"
    with st c r have "m' = \<lparr>control = Resolving, world = w'\<rparr>"
      by (simp add: step_def Let_def)
    moreover from s have "sound (e\<lparr>scope := FINALLY\<rparr>)"
      by (simp add: sound_def)
    ultimately show ?thesis using a fr es
      by (auto simp: good_def inv_Resolving intro!: quiet_top)
  qed
qed


lemma matching_catch_iff:
  "matching_catch cfg (EvCatch cl) m \<longleftrightarrow>
     control m = Catching \<and>
     (\<exists>e es k. frames cfg (world m) = e # es \<and> exn_class e = Some k \<and>
               ExceptIsDerived (classes (world m)) k cl = Some True)"
  by (auto simp: matching_catch_def top_frame_frames split: list.splits option.splits)

lemma step_catch:
  assumes inv: "invariant cfg m"
    and st: "step cfg (EvCatch cl) m = Some m'"
  shows "good cfg (EvCatch cl) m m'"
proof -
  let ?r = "catch_macro cfg cl (world m)"
  from st have c: "control m = Catching"
    by (cases "control m"; auto simp: step_def after_def Let_def)
  obtain out w' where r: "?r = (out, w')" by (cases ?r) auto
  from inv c obtain e es where fr: "frames cfg (world m) = e # es" and s: "sound e"
    and e: "scope e = TRY" "state e = PENDING" and es: "list_all in_block es"
    by (auto simp: inv_Catching)
  from catch_macro_effect [OF r] fr e
  consider
      (stop) "w' = world m" "out = Faults \<or> out = Diverges"
             "\<not> matching_catch cfg (EvCatch cl) m"
    | (match) "out = Returns True" "frames cfg w' = e\<lparr>state := CAUGHT, scope := CATCH\<rparr> # es"
             "matching_catch cfg (EvCatch cl) m"
    | (skip) "out = Returns False" "w' = world m" "\<not> matching_catch cfg (EvCatch cl) m"
    by (auto simp: matching_catch_iff c)
  then show ?thesis
  proof cases
    case stop
    with st c r have "control m' = Stopped" "world m' = world m"
      by (auto simp: step_def after_def Let_def split: if_splits)
    with stop show ?thesis by (simp add: good_def inv_Stopped)
  next
    case match
    note a = match
    with st c r have m': "m' = \<lparr>control = Running, world = w'\<rparr>"
      by (auto simp: step_def Let_def split: if_splits)
    from s have "in_block (e\<lparr>state := CAUGHT, scope := CATCH\<rparr>)"
      by (simp add: in_block_def sound_def)
    with a m' fr e es show ?thesis by (simp add: good_def inv_Running)
  next
    case skip
    note a = skip
    with st c r have "m' = \<lparr>control = Catching, world = world m\<rparr>"
      by (auto simp: step_def Let_def split: if_splits)
    with a fr s e es show ?thesis by (simp add: good_def inv_Catching)
  qed
qed

lemma step_resolve:
  assumes inv: "invariant cfg m"
    and st: "step cfg (EvResolve pC) m = Some m'"
  shows "good cfg (EvResolve pC) m m'"
proof -
  let ?r = "ExceptFinally cfg pC (world m)"
  from st have c: "control m = Resolving"
    and m': "m' = \<lparr>control = continue Running (fst ?r), world = snd ?r\<rparr>"
    by (cases "control m"; auto simp: step_def after_def Let_def)+
  obtain out w' where r: "?r = (out, w')" by (cases ?r) auto
  from inv c obtain ex rest where fr: "frames cfg (world m) = ex # rest" and s: "sound ex"
    and rest: "list_all in_block rest"
    by (auto simp: inv_Resolving)
  have ret: "continue Running out = Running \<or> continue Running out = Stopped"
    if "\<forall>b. out = LongJmps b \<longrightarrow> exn_class ex = Some ReturnEvent \<and> pData ex = ReturnBuf b"
    using that s
    by (cases out) (auto simp: continue_def sound_def split: JMP_BUF.splits Data.splits)
  from ExceptFinally_effect [OF r] fr
  consider
      (fault) "out = Faults" "frames cfg w' = ex # rest"
    | (last) "rest = []" "frames cfg w' = []"
        "\<forall>b. out = LongJmps b \<longrightarrow> exn_class ex = Some ReturnEvent \<and> pData ex = ReturnBuf b"
    | (pop) "rest \<noteq> []" "frames cfg w' = rest"
        "\<forall>b. out = LongJmps b \<longrightarrow> exn_class ex = Some ReturnEvent \<and> pData ex = ReturnBuf b"
    | (onward) e' es e'' k where "rest = e' # es" "frames cfg w' = e'' # es"
        "exn_class ex = Some k" "thrown e' e'' (ClassArg k) (pData ex)"
        "out = map_Outcome (\<lambda>_. 0) (throw_jump e')"
    by (elim disjE exE conjE) auto
  then have "invariant cfg \<lparr>control = continue Running out, world = w'\<rparr> \<and>
        quiet (frames cfg (world m)) (frames cfg w')"
  proof cases
    case fault
    with fr show ?thesis by (simp add: inv_Stopped)
  next
    case last
    from ret [OF last(3)] last show ?thesis by (auto simp: inv_Running inv_Stopped)
  next
    case pop
    from ret [OF pop(3)] pop rest fr show ?thesis by (auto simp: inv_Running inv_Stopped)
  next
    case a: onward
    from a rest have ib: "in_block e'" "list_all in_block es" by auto
    note se = in_block_sound [OF ib(1)]
    from s a have ok: "\<forall>k'. ClassArg k = ClassArg k' \<longrightarrow> k' = ReturnEvent \<longrightarrow>
                        (\<exists>n. pData ex = ReturnBuf (SetByReturn n))"
      by (auto simp: sound_def split: Data.splits JMP_BUF.splits)
    note se' = sound_thrown [OF se a(4) ok]
    have cc: "continue Running out =
      (case scope e' of TRY \<Rightarrow> Catching | CATCH \<Rightarrow> AtFinally | FINALLY \<Rightarrow> AtFinally | _ \<Rightarrow> Running)"
      using a(5) se by (simp add: continue_map_throw_jump)
    have "invariant cfg \<lparr>control = continue Running out, world = w'\<rparr>"
      by (rule invariant_thrown [OF a(2) a(4) se se' ib(2) in_block_scope [OF ib(1)] cc])
    moreover have "quiet (frames cfg (world m)) (frames cfg w')"
      using fr a by (auto simp: thrown_def intro!: quiet_pop_top)
    ultimately show ?thesis by simp
  qed
  with m' r show ?thesis by (simp add: good_def)
qed

lemma step_good:
  assumes "invariant cfg m" and "step cfg ev m = Some m'"
  shows "good cfg ev m m'"
  using assms
  by (cases ev)
     (simp_all add: step_try step_throw step_signal step_assert step_return step_block_end
        step_catch step_no_catch step_finally step_resolve)

lemma reachable_invariant: "reachable cfg m \<Longrightarrow> invariant cfg m"
proof (induction rule: reachable.induct)
  case (reachable_init w)
  then show ?case by (simp add: inv_Running)
next
  case (reachable_step m ev m')
  from step_good [OF reachable_step.IH reachable_step.hyps(2)] show ?case
    by (simp add: good_def)
qed

lemma run_reachable:
  "reachable cfg m \<Longrightarrow> run cfg evs m = Some m' \<Longrightarrow> reachable cfg m'"
proof (induction evs arbitrary: m)
  case Nil
  then show ?case by simp
next
  case (Cons ev evs)
  then show ?case
    by (auto split: option.splits intro: reachable_step)
qed


lemma length_states_of [simp]: "length (states_of cfg m) = length (frames cfg (world m))"
  by (simp add: states_of_def)

lemma invariant_scopes:
  assumes "invariant cfg m"
  shows "(control m = Running \<longrightarrow>
            (\<forall>e \<in> set (frames cfg (world m)). scope e = TRY \<longrightarrow> state e = EMPTY)) \<and>
         (control m \<noteq> Stopped \<longrightarrow>
            (\<forall>e \<in> set (frames cfg (world m)). scope e = TRY \<longrightarrow> state e \<noteq> CAUGHT) \<and>
            (\<forall>e \<in> set (tl (frames cfg (world m))). scope e = TRY \<longrightarrow> state e = EMPTY)) \<and>
         (control m = Catching \<longrightarrow>
            (\<exists>e es. frames cfg (world m) = e # es \<and> scope e = TRY \<and> state e = PENDING))"
proof -
  obtain c w where m: "m = \<lparr>control = c, world = w\<rparr>" by (cases m) auto
  have ib: "\<And>es. list_all in_block es \<Longrightarrow> \<forall>e \<in> set es. scope e = TRY \<longrightarrow> state e = EMPTY"
    by (auto simp: list_all_iff in_block_def)
  have tl: "\<And>es. list_all in_block es \<Longrightarrow> \<forall>e \<in> set (tl es). scope e = TRY \<longrightarrow> state e = EMPTY"
    using ib by (metis list.sel(2) list.set_sel(2))
  show ?thesis
  proof (cases c)
    case Running
    with assms m ib tl show ?thesis by (auto simp: inv_Running)
  next
    case Catching
    with assms m ib show ?thesis by (auto simp: inv_Catching)
  next
    case AtFinally
    with assms m ib show ?thesis by (auto simp: inv_AtFinally)
  next
    case Resolving
    with assms m ib show ?thesis by (auto simp: inv_Resolving)
  next
    case Stopped
    with m show ?thesis by simp
  qed
qed

lemma good_states_match:
  assumes fr: "frames cfg (world m) = e # es"
    "frames cfg (world m') = e\<lparr>state := CAUGHT, scope := CATCH\<rparr> # es"
    "state e = PENDING"
  shows "(\<forall>i < length (states_of cfg m'). states_of cfg m' ! i = CAUGHT \<longrightarrow>
            (i < length (states_of cfg m) \<and> states_of cfg m ! i = CAUGHT) \<or>
            Suc i = length (states_of cfg m)) \<and>
         (\<forall>i. i < length (states_of cfg m) \<and> i < length (states_of cfg m') \<and>
              states_of cfg m ! i = PENDING \<longrightarrow>
            states_of cfg m' ! i = PENDING \<or> Suc i = length (states_of cfg m))"
proof -
  have so: "states_of cfg m = map state (rev es) @ [PENDING]"
    "states_of cfg m' = map state (rev es) @ [CAUGHT]"
    using fr by (simp_all add: states_of_def)
  show ?thesis
    unfolding so by (auto simp: nth_append)
qed

lemma good_states_quiet:
  assumes "quiet (frames cfg (world m)) (frames cfg (world m'))"
  shows "(\<forall>i < length (states_of cfg m'). states_of cfg m' ! i = CAUGHT \<longrightarrow>
            i < length (states_of cfg m) \<and> states_of cfg m ! i = CAUGHT) \<and>
         (\<forall>i. i < length (states_of cfg m) \<and> i < length (states_of cfg m') \<and>
              states_of cfg m ! i = PENDING \<longrightarrow>
            states_of cfg m' ! i = PENDING)"
proof -
  have a: "i < length (states_of cfg m) \<and> states_of cfg m ! i = CAUGHT"
    if "i < length (states_of cfg m')" "states_of cfg m' ! i = CAUGHT" for i
  proof -
    from that have "i < length (frames cfg (world m'))"
      "state (rev (frames cfg (world m')) ! i) = CAUGHT"
      by (simp_all add: states_of_def)
    with assms have "i < length (frames cfg (world m)) \<and>
      state (rev (frames cfg (world m)) ! i) = CAUGHT"
      unfolding quiet_def by blast
    then show ?thesis
      by (simp add: states_of_def)
  qed
  have b: "states_of cfg m' ! i = PENDING"
    if "i < length (states_of cfg m)" "i < length (states_of cfg m')"
      "states_of cfg m ! i = PENDING" for i
  proof -
    from that have i: "i < length (frames cfg (world m))" "i < length (frames cfg (world m'))"
      "state (rev (frames cfg (world m)) ! i) = PENDING"
      by (simp_all add: states_of_def)
    with assms have "state (rev (frames cfg (world m')) ! i) = PENDING"
      unfolding quiet_def by blast
    with i show ?thesis
      by (simp add: states_of_def)
  qed
  from a b show ?thesis by blast
qed

lemma good_states:
  assumes "good cfg ev m m'"
  shows "(matching_catch cfg ev m \<longrightarrow>
            control m' = Running \<and>
            (\<exists>e es. frames cfg (world m) = e # es \<and> state e = PENDING \<and>
                    frames cfg (world m') = e\<lparr>state := CAUGHT, scope := CATCH\<rparr> # es)) \<and>
         (\<forall>i < length (states_of cfg m'). states_of cfg m' ! i = CAUGHT \<longrightarrow>
            (i < length (states_of cfg m) \<and> states_of cfg m ! i = CAUGHT) \<or>
            (matching_catch cfg ev m \<and> Suc i = length (states_of cfg m))) \<and>
         (\<forall>i. i < length (states_of cfg m) \<and> i < length (states_of cfg m') \<and>
              states_of cfg m ! i = PENDING \<longrightarrow>
            states_of cfg m' ! i = PENDING \<or>
            (matching_catch cfg ev m \<and> Suc i = length (states_of cfg m)))"
proof (cases "matching_catch cfg ev m")
  case True
  with assms obtain e es where fr: "frames cfg (world m) = e # es"
    "frames cfg (world m') = e\<lparr>state := CAUGHT, scope := CATCH\<rparr> # es"
    "state e = PENDING" and c: "control m' = Running"
    by (auto simp: good_def)
  from good_states_match [OF fr] True c fr show ?thesis
    by blast
next
  case False
  with assms have "quiet (frames cfg (world m)) (frames cfg (world m'))"
    by (simp add: good_def)
  from good_states_quiet [OF this] False show ?thesis
    by blast
qed

text \<open>
  C6, as it holds.  In every state the machine can reach: while code of the
  user runs, a handle whose scope is \<open>TRY\<close> has state \<open>EMPTY\<close>; as long as
  the machine has not stopped, a handle whose scope is \<open>TRY\<close> is never
  \<open>CAUGHT\<close> and is \<open>EMPTY\<close> when it is not the top of the stack; and while
  the \<open>catch\<close> clauses are tried the top handle has scope \<open>TRY\<close> and state
  \<open>PENDING\<close>.  For every step from such a state: a \<open>catch\<close> clause that
  matches makes the top handle \<open>CAUGHT\<close>, with scope \<open>CATCH\<close>, and enters
  the block; a handle is \<open>CAUGHT\<close> after the step only if it was before or
  it is the top handle and the step is a matching \<open>catch\<close> clause; and a
  \<open>PENDING\<close> handle that is still on the stack after the step is still
  \<open>PENDING\<close>, unless it is the top handle and the step is a matching
  \<open>catch\<close> clause, so a handle no clause matched is \<open>PENDING\<close> when
  \<open>ExceptFinally\<close> pops it.
\<close>

theorem frame_state_machine:
  assumes "reachable cfg m"
  shows "(control m = Running \<longrightarrow>
            (\<forall>e \<in> set (frames cfg (world m)). scope e = TRY \<longrightarrow> state e = EMPTY)) \<and>
         (control m \<noteq> Stopped \<longrightarrow>
            (\<forall>e \<in> set (frames cfg (world m)). scope e = TRY \<longrightarrow> state e \<noteq> CAUGHT) \<and>
            (\<forall>e \<in> set (tl (frames cfg (world m))). scope e = TRY \<longrightarrow> state e = EMPTY)) \<and>
         (control m = Catching \<longrightarrow>
            (\<exists>e es. frames cfg (world m) = e # es \<and> scope e = TRY \<and> state e = PENDING)) \<and>
         (step cfg ev m = Some m' \<longrightarrow>
            (matching_catch cfg ev m \<longrightarrow>
               control m' = Running \<and>
               (\<exists>e es. frames cfg (world m) = e # es \<and> state e = PENDING \<and>
                       frames cfg (world m') = e\<lparr>state := CAUGHT, scope := CATCH\<rparr> # es)) \<and>
            (\<forall>i < length (states_of cfg m'). states_of cfg m' ! i = CAUGHT \<longrightarrow>
               (i < length (states_of cfg m) \<and> states_of cfg m ! i = CAUGHT) \<or>
               (matching_catch cfg ev m \<and> Suc i = length (states_of cfg m))) \<and>
            (\<forall>i. i < length (states_of cfg m) \<and> i < length (states_of cfg m') \<and>
                 states_of cfg m ! i = PENDING \<longrightarrow>
               states_of cfg m' ! i = PENDING \<or>
               (matching_catch cfg ev m \<and> Suc i = length (states_of cfg m))))"
proof -
  note inv = reachable_invariant [OF assms]
  have "step cfg ev m = Some m' \<Longrightarrow> good cfg ev m m'"
    by (rule step_good [OF inv])
  with invariant_scopes [OF inv] good_states [of cfg ev m m'] show ?thesis
    by blast
qed

lemmas machine_defs =
  step_def after_def continue_def try_macro_def catch_macro_def ExceptTry_def ExceptCatch_def
  ExceptInstallHandlers_def ExceptCreateContext_def update_top_def top_frame_def frames_def
  scopes_and_states_def states_of_def matching_catch_def try_and_throw_def

lemma pending_machine_frames:
  "run single_threaded try_and_throw \<lparr>control = Running, world = initial_world\<rparr> =
     Some pending_machine"
  "control pending_machine = Catching"
  "scopes_and_states single_threaded pending_machine = [(TRY, PENDING)]"
  "matching_catch single_threaded (EvCatch Throwable) pending_machine"
proof -
  have n: "Exception \<noteq> ReturnEvent"
    by (simp add: class_refs)
  show "run single_threaded try_and_throw \<lparr>control = Running, world = initial_world\<rparr> =
     Some pending_machine"
    "control pending_machine = Catching"
    "scopes_and_states single_threaded pending_machine = [(TRY, PENDING)]"
    "matching_catch single_threaded (EvCatch Throwable) pending_machine"
    by (simp_all add: pending_machine_def machine_defs eval_defs Let_def n
        declared_notRethrown ExceptIsDerived_declared)
qed


lemma pending_machine_reachable: "reachable single_threaded pending_machine"
  by (rule run_reachable [OF reachable_init pending_machine_frames(1)])
     (simp add: frames_def eval_defs)

lemma pending_machine_step:
  "\<exists>m'. step single_threaded (EvCatch Throwable) pending_machine = Some m'"
proof -
  have n: "Exception \<noteq> ReturnEvent" "Throwable \<noteq> ReturnEvent"
    by (simp_all add: class_refs)
  show ?thesis
    by (simp add: pending_machine_def machine_defs eval_defs Let_def n
        declared_notRethrown ExceptIsDerived_declared)
qed

theorem frame_state_machine_witness:
  "reachable single_threaded pending_machine \<and>
   control pending_machine = Catching \<and>
   matching_catch single_threaded (EvCatch Throwable) pending_machine \<and>
   map_option control (step single_threaded (EvCatch Throwable) pending_machine) = Some Running \<and>
   map_option (scopes_and_states single_threaded)
     (step single_threaded (EvCatch Throwable) pending_machine) = Some [(CATCH, CAUGHT)]"
proof -
  obtain m' where st: "step single_threaded (EvCatch Throwable) pending_machine = Some m'"
    using pending_machine_step by blast
  from frame_state_machine [OF pending_machine_reachable, of "EvCatch Throwable" m'] st
    pending_machine_frames(4)
  obtain e es where c: "control m' = Running"
    and fr: "frames single_threaded (world pending_machine) = e # es"
      "frames single_threaded (world m') = e\<lparr>state := CAUGHT, scope := CATCH\<rparr> # es"
    by blast
  from pending_machine_frames(3) fr(1) have "es = []"
    by (simp add: scopes_and_states_def)
  with fr(2) have "scopes_and_states single_threaded m' = [(CATCH, CAUGHT)]"
    by (simp add: scopes_and_states_def)
  with c st pending_machine_reachable pending_machine_frames show ?thesis
    by simp
qed

theorem try_scope_pending_counterexample:
  "run single_threaded try_and_throw \<lparr>control = Running, world = initial_world\<rparr> =
     Some pending_machine \<and>
   reachable single_threaded pending_machine \<and>
   scopes_and_states single_threaded pending_machine = [(TRY, PENDING)]"
  using pending_machine_reachable pending_machine_frames by simp

end
